theory Spec2Isabelle
  imports Main
begin

text \<open>
  The backend manager (\<^verbatim>\<open>BackendManager\<close>) and the health check service
  (\<^verbatim>\<open>HealthCheckService\<close>) of the main process, as state machines. A class is a record
  of its private fields; a method is a function from the state to the new state (and
  the value returned). The code runs on one event loop: a method call, a listener or a
  timer callback runs to its end, or to the next \<^verbatim>\<open>await\<close>, before anything else does.
  So an async method is cut at its \<^verbatim>\<open>await\<close>s, each piece is one step, and the state
  records where a suspended call stands. What the environment decides (what
  \<^verbatim>\<open>spawn\<close> returns, what the child prints, how a request settles, what
  \<^verbatim>\<open>Date.now()\<close> reads, which timer fires next) is the argument of an event. Timers
  are events that are possible while the timer is set; their delays are not modelled.
  Logging has no effect on the state and is left out; the logger, \<^verbatim>\<open>path\<close> and the
  Electron calls are taken not to throw. Both classes have methods \<^verbatim>\<open>start\<close>,
  \<^verbatim>\<open>stop\<close> and \<^verbatim>\<open>getStatus\<close>: here they carry the prefix \<open>health_\<close> or
  \<open>backend_\<close>.
\<close>

section \<open>Shared constants\<close>

text \<open>
  The entries of \<^verbatim>\<open>APP_CONSTANTS\<close> (src/shared/constants.ts) that the backend
  manager and the health check service read.
\<close>

definition HEALTH_CHECK_FAILURE_THRESHOLD :: nat where
  "HEALTH_CHECK_FAILURE_THRESHOLD = 3"

definition BACKEND_HEALTH_ENDPOINT :: string where
  "BACKEND_HEALTH_ENDPOINT = ''/health''"

section \<open>Health check service\<close>

text \<open>
  \<^verbatim>\<open>HealthCheckStatus\<close> of src/shared/types.ts. The counter is a JavaScript number
  that is only ever reset to 0 or incremented, so it is a natural number (exact below
  \<open>2^53\<close>). \<^verbatim>\<open>lastCheck\<close> holds the value of \<^verbatim>\<open>Date.now()\<close>.
\<close>

record HealthCheckStatus =
  isHealthy :: bool
  consecutiveFailures :: nat
  lastCheck :: "nat option"
  error :: "string option"

text \<open>
  The private fields of \<^verbatim>\<open>HealthCheckService\<close>, followed by the part of the runtime
  the class acts on. The field \<^verbatim>\<open>isRunning\<close> is named \<open>hcIsRunning\<close> here, the backend
  manager has a field of the same name. \<open>mainWindow = Some d\<close> is a window reference
  whose \<^verbatim>\<open>isDestroyed()\<close> answers \<open>d\<close>.

  Runtime: \<open>timers\<close> are the handles of the intervals created by \<^verbatim>\<open>setInterval\<close> and
  not yet cleared, \<open>inflight\<close> counts the requests of \<^verbatim>\<open>performCheck\<close> that have not
  settled yet, \<open>dialogs\<close> the message boxes not yet dismissed, \<open>sent\<close> lists the
  \<^verbatim>\<open>health:status\<close> messages in the order sent, and \<open>checks\<close> counts the calls of
  \<^verbatim>\<open>performCheck\<close>.
\<close>

record HealthCheckService =
  status :: HealthCheckStatus
  intervalId :: "nat option"
  hcIsRunning :: bool
  mainWindow :: "bool option"
  timers :: "nat list"
  nextTimer :: nat
  inflight :: nat
  dialogs :: nat
  sent :: "HealthCheckStatus list"
  checks :: nat

definition health_init :: HealthCheckService where
  "health_init =
     \<lparr>status = \<lparr>isHealthy = True, consecutiveFailures = 0, lastCheck = None, error = None\<rparr>,
      intervalId = None, hcIsRunning = False, mainWindow = None,
      timers = [], nextTimer = 0, inflight = 0, dialogs = 0, sent = [], checks = 0\<rparr>"

definition setMainWindow :: "bool \<Rightarrow> HealthCheckService \<Rightarrow> HealthCheckService" where
  "setMainWindow d s = s\<lparr>mainWindow := Some d\<rparr>"

definition health_getStatus :: "HealthCheckService \<Rightarrow> HealthCheckStatus" where
  "health_getStatus s = status s"

definition isActive :: "HealthCheckService \<Rightarrow> bool" where
  "isActive s = hcIsRunning s"

text \<open>\<^verbatim>\<open>this.mainWindow && !this.mainWindow.isDestroyed()\<close>\<close>

definition windowUsable :: "HealthCheckService \<Rightarrow> bool" where
  "windowUsable s = (case mainWindow s of None \<Rightarrow> False | Some d \<Rightarrow> \<not> d)"

definition notifyRenderer :: "HealthCheckService \<Rightarrow> HealthCheckService" where
  "notifyRenderer s =
     (if windowUsable s then s\<lparr>sent := sent s @ [health_getStatus s]\<rparr> else s)"

definition health_stop :: "HealthCheckService \<Rightarrow> HealthCheckService" where
  "health_stop s =
     (if \<not> hcIsRunning s then s
      else
        let s1 = (case intervalId s of
                    None \<Rightarrow> s
                  | Some h \<Rightarrow> s\<lparr>timers := removeAll h (timers s), intervalId := None\<rparr>)
        in s1\<lparr>hcIsRunning := False\<rparr>)"

definition handleSuccess :: "nat \<Rightarrow> HealthCheckService \<Rightarrow> HealthCheckService" where
  "handleSuccess now s =
     notifyRenderer
       (s\<lparr>status := (status s)\<lparr>isHealthy := True, consecutiveFailures := 0,
                               lastCheck := Some now, error := None\<rparr>\<rparr>)"

definition handleCriticalFailure :: "HealthCheckService \<Rightarrow> HealthCheckService" where
  "handleCriticalFailure s =
     (let s1 = health_stop s
      in if windowUsable s1 then s1\<lparr>dialogs := dialogs s1 + 1\<rparr> else s1)"

definition handleFailure :: "string \<Rightarrow> nat \<Rightarrow> HealthCheckService \<Rightarrow> HealthCheckService" where
  "handleFailure err now s =
     (let s1 = s\<lparr>status := (status s)\<lparr>consecutiveFailures := consecutiveFailures (status s) + 1,
                                       lastCheck := Some now, error := Some err\<rparr>\<rparr>;
          s2 = (if HEALTH_CHECK_FAILURE_THRESHOLD \<le> consecutiveFailures (status s1)
                then handleCriticalFailure (s1\<lparr>status := (status s1)\<lparr>isHealthy := False\<rparr>\<rparr>)
                else s1)
      in notifyRenderer s2)"

text \<open>
  \<^verbatim>\<open>performCheck\<close> is an async function: it runs up to the \<^verbatim>\<open>await\<close> of the request
  when it is called, and the rest when the request settles. \<open>performCheck\<close> is the first
  half, given what \<^verbatim>\<open>backendManager.getBaseUrl()\<close> returns; a missing (or empty) URL
  fails the check at once, with no request. \<open>performCheck_settled\<close> is the second half,
  given how the request settled: \<open>Response st\<close> is an HTTP 200 whose body has
  \<^verbatim>\<open>status\<close> \<open>st\<close>; \<open>Rejected m\<close> is anything thrown (transport error, timeout, a
  status other than 200, a body without the field), \<open>m\<close> the message when the thrown
  value is an \<^verbatim>\<open>Error\<close>.
\<close>

datatype http_outcome = Response string | Rejected "string option"

definition performCheck :: "string option \<Rightarrow> nat \<Rightarrow> HealthCheckService \<Rightarrow> HealthCheckService" where
  "performCheck baseUrl now s =
     (let s1 = s\<lparr>checks := checks s + 1\<rparr>
      in case baseUrl of
           None \<Rightarrow> handleFailure ''Backend URL not available'' now s1
         | Some u \<Rightarrow>
             if u = [] then handleFailure ''Backend URL not available'' now s1
             else s1\<lparr>inflight := inflight s1 + 1\<rparr>)"

definition performCheck_settled :: "http_outcome \<Rightarrow> nat \<Rightarrow> HealthCheckService \<Rightarrow> HealthCheckService" where
  "performCheck_settled r now s =
     (case r of
        Response st \<Rightarrow>
          if st = ''healthy'' then handleSuccess now s
          else handleFailure ''Backend reported unhealthy status'' now s
      | Rejected m \<Rightarrow>
          handleFailure (''Health check request failed: '' @
                         (case m of Some msg \<Rightarrow> msg | None \<Rightarrow> ''Unknown error'')) now s)"

definition health_start :: "string option \<Rightarrow> nat \<Rightarrow> HealthCheckService \<Rightarrow> HealthCheckService" where
  "health_start baseUrl now s =
     (if hcIsRunning s then s
      else
        let s1 = s\<lparr>hcIsRunning := True,
                   status := (status s)\<lparr>consecutiveFailures := 0, isHealthy := True\<rparr>\<rparr>;
            s2 = performCheck baseUrl now s1;
            h = nextTimer s2
        in s2\<lparr>intervalId := Some h, timers := timers s2 @ [h], nextTimer := h + 1\<rparr>)"

text \<open>
  What can happen to the service, one event of the event loop at a time: a call of
  \<^verbatim>\<open>start()\<close> or \<^verbatim>\<open>stop()\<close>, the callback of an interval (only of one that has not been
  cleared), a request settling (only when one is in flight), the critical message box
  being dismissed (only when one is open), a call of \<^verbatim>\<open>setMainWindow\<close>, the window
  being destroyed. \<open>None\<close> means the event cannot happen in that state.
\<close>

datatype health_event =
    HStart "string option" nat
  | HStop
  | HTick nat "string option" nat
  | HSettled http_outcome nat
  | HDialogClosed
  | HSetMainWindow bool
  | HWindowDestroyed

definition health_step :: "health_event \<Rightarrow> HealthCheckService \<Rightarrow> HealthCheckService option" where
  "health_step e s =
     (case e of
        HStart baseUrl now \<Rightarrow> Some (health_start baseUrl now s)
      | HStop \<Rightarrow> Some (health_stop s)
      | HTick h baseUrl now \<Rightarrow>
          if h \<in> set (timers s) then Some (performCheck baseUrl now s) else None
      | HSettled r now \<Rightarrow>
          if 0 < inflight s
          then Some (performCheck_settled r now (s\<lparr>inflight := inflight s - 1\<rparr>))
          else None
      | HDialogClosed \<Rightarrow>
          if 0 < dialogs s then Some (notifyRenderer (s\<lparr>dialogs := dialogs s - 1\<rparr>))
          else None
      | HSetMainWindow d \<Rightarrow> Some (setMainWindow d s)
      | HWindowDestroyed \<Rightarrow>
          (case mainWindow s of None \<Rightarrow> None | Some d \<Rightarrow> Some (s\<lparr>mainWindow := Some True\<rparr>)))"

fun health_run :: "health_event list \<Rightarrow> HealthCheckService \<Rightarrow> HealthCheckService option" where
  "health_run [] s = Some s"
| "health_run (e # es) s =
     (case health_step e s of None \<Rightarrow> None | Some s' \<Rightarrow> health_run es s')"

text \<open>
  Classifying events: a call of \<^verbatim>\<open>start()\<close>; a check that ends in
  \<^verbatim>\<open>handleFailure\<close> (an interval callback that finds no URL, or a request settling
  with anything but a healthy body); and the events that are neither a call of
  \<^verbatim>\<open>start()\<close> or \<^verbatim>\<open>stop()\<close> nor a successful check.
\<close>

fun isStart :: "health_event \<Rightarrow> bool" where
  "isStart (HStart baseUrl now) = True"
| "isStart e = False"

definition noUrl :: "string option \<Rightarrow> bool" where
  "noUrl baseUrl = (case baseUrl of None \<Rightarrow> True | Some u \<Rightarrow> u = [])"

fun failingCheck :: "health_event \<Rightarrow> bool" where
  "failingCheck (HTick h baseUrl now) = noUrl baseUrl"
| "failingCheck (HSettled r now) = (r \<noteq> Response ''healthy'')"
| "failingCheck e = False"

fun noSuccessNoCall :: "health_event \<Rightarrow> bool" where
  "noSuccessNoCall (HStart baseUrl now) = False"
| "noSuccessNoCall HStop = False"
| "noSuccessNoCall (HSettled r now) = (r \<noteq> Response ''healthy'')"
| "noSuccessNoCall e = True"

definition failures :: "health_event list \<Rightarrow> nat" where
  "failures es = length (filter failingCheck es)"

text \<open>
  What holds in every state the service can reach: the flag is down exactly when the
  counter is at or over the threshold, the interval stored in \<^verbatim>\<open>intervalId\<close> is the
  only one alive, it is stored exactly while the service is running, and the service is
  not running once the threshold is reached.
\<close>

definition health_inv :: "HealthCheckService \<Rightarrow> bool" where
  "health_inv s =
     ((\<not> isHealthy (status s)) = (HEALTH_CHECK_FAILURE_THRESHOLD \<le> consecutiveFailures (status s))
      \<and> timers s = (case intervalId s of None \<Rightarrow> [] | Some h \<Rightarrow> [h])
      \<and> hcIsRunning s = (intervalId s \<noteq> None)
      \<and> (HEALTH_CHECK_FAILURE_THRESHOLD \<le> consecutiveFailures (status s) \<longrightarrow> \<not> hcIsRunning s))"

section \<open>Backend manager\<close>

definition BACKEND_STARTUP_TIMEOUT_MS :: int where
  "BACKEND_STARTUP_TIMEOUT_MS = 30000"

text \<open>
  \<^verbatim>\<open>BackendStatus\<close> of src/shared/types.ts; the fields carry the prefix \<open>st_\<close>, the
  manager has fields of the same names.
\<close>

record BackendStatus =
  st_isRunning :: bool
  st_port :: "nat option"
  st_pid :: "nat option"
  st_error :: "string option"

subsection \<open>The port announcement\<close>

text \<open>
  The handler of stdout trims the chunk and matches it against \<^verbatim>\<open>/PORT:(\d+)/\<close>.
  A string is a list of characters; \<open>trim\<close> removes the ASCII white space that
  \<^verbatim>\<open>String.prototype.trim\<close> removes. \<open>matchPort\<close> is the leftmost match of the regular
  expression: at the first position where \<^verbatim>\<open>PORT:\<close> is followed by a digit, the longest
  run of digits (the capture group). \<open>parseInt\<close> reads a run of digits in base 10; the
  result is a natural number (the JavaScript number is exact below \<open>2^53\<close>).
\<close>

definition isSpace :: "char \<Rightarrow> bool" where
  "isSpace c = (c \<in> set [CHR '' '', CHR 0x09, CHR 0x0A, CHR 0x0B, CHR 0x0C, CHR 0x0D])"

definition trim :: "string \<Rightarrow> string" where
  "trim s = rev (dropWhile isSpace (rev (dropWhile isSpace s)))"

definition isDigit :: "char \<Rightarrow> bool" where
  "isDigit c = (c \<in> set ''0123456789'')"

fun matchPort :: "string \<Rightarrow> string option" where
  "matchPort [] = None"
| "matchPort (c # cs) =
     (if take 5 (c # cs) = ''PORT:'' \<and> takeWhile isDigit (drop 5 (c # cs)) \<noteq> []
      then Some (takeWhile isDigit (drop 5 (c # cs)))
      else matchPort cs)"

definition digitValue :: "char \<Rightarrow> nat" where
  "digitValue c = of_char c - 48"

definition parseInt :: "string \<Rightarrow> nat" where
  "parseInt ds = foldl (\<lambda>n c. 10 * n + digitValue c) 0 ds"

definition announcedPort :: "string \<Rightarrow> nat option" where
  "announcedPort chunk = map_option parseInt (matchPort (trim chunk))"

subsection \<open>State\<close>

text \<open>
  A \<^verbatim>\<open>ChildProcess\<close> object: \<open>child\<close> is the identity of the object, \<open>pid\<close> its
  \<^verbatim>\<open>pid\<close> (\<^verbatim>\<open>undefined\<close> when no process was started).
\<close>

record ChildProcess =
  child :: nat
  pid :: "nat option"

text \<open>
  A promise of \<^verbatim>\<open>_startInternal\<close> is pending, fulfilled with a status, or rejected.
  A promise of \<^verbatim>\<open>stop()\<close> is pending until the \<^verbatim>\<open>close\<close> event of the child it was
  called on, or resolved.
\<close>

datatype promise = Pending | Fulfilled BackendStatus | RejectedWith "string option"

datatype stop_promise = StopPending nat | StopResolved

datatype signal = SIGTERM | SIGKILL

text \<open>
  Where the one call of \<^verbatim>\<open>_startInternal\<close> that is under way is suspended:
  in \<^verbatim>\<open>waitForPort\<close>; in \<^verbatim>\<open>waitForHealthy\<close> at the request; in \<^verbatim>\<open>waitForHealthy\<close>
  at the 500 ms sleep after a failed request. The arguments are its promise and its
  local variables: \<^verbatim>\<open>pid\<close>, then \<^verbatim>\<open>port\<close> and \<^verbatim>\<open>startTime\<close>.
\<close>

datatype startup_phase =
    NoStartup
  | AwaitPort nat "nat option"
  | AwaitProbe nat "nat option" nat int
  | AwaitSleep nat "nat option" nat int

text \<open>
  The four private fields of \<^verbatim>\<open>BackendManager\<close>, followed by the part of the runtime
  the class acts on: the suspended call of \<^verbatim>\<open>_startInternal\<close>, the promises created by
  \<^verbatim>\<open>_startInternal\<close> (a promise is its index), the children that were spawned and
  have not emitted \<^verbatim>\<open>close\<close> (the listeners of \<^verbatim>\<open>_startInternal\<close> are attached to
  each), the number of children spawned, the number of health requests sent by
  \<^verbatim>\<open>waitForHealthy\<close>, the calls of \<^verbatim>\<open>kill\<close> in order, the promises of \<^verbatim>\<open>stop()\<close>, and
  the number of 5 s timers of \<^verbatim>\<open>stop()\<close> that have not fired.
\<close>

record BackendManager =
  process :: "ChildProcess option"
  port :: "nat option"
  isRunning :: bool
  startupPromise :: "nat option"
  phase :: startup_phase
  promises :: "promise list"
  children :: "nat list"
  spawned :: nat
  probes :: nat
  signals :: "(nat \<times> signal) list"
  stopPromises :: "stop_promise list"
  killTimers :: nat

definition backend_init :: BackendManager where
  "backend_init =
     \<lparr>process = None, port = None, isRunning = False, startupPromise = None,
      phase = NoStartup, promises = [], children = [], spawned = 0, probes = 0,
      signals = [], stopPromises = [], killTimers = 0\<rparr>"

subsection \<open>Status\<close>

text \<open>\<^verbatim>\<open>x || null\<close> on a number: \<^verbatim>\<open>undefined\<close> and 0 give \<^verbatim>\<open>null\<close>.\<close>

definition orNull :: "nat option \<Rightarrow> nat option" where
  "orNull x = (case x of None \<Rightarrow> None | Some n \<Rightarrow> if n = 0 then None else Some n)"

definition backend_getStatus :: "BackendManager \<Rightarrow> BackendStatus" where
  "backend_getStatus s =
     \<lparr>st_isRunning = isRunning s, st_port = port s,
      st_pid = (case process s of None \<Rightarrow> None | Some c \<Rightarrow> orNull (pid c)),
      st_error = None\<rparr>"

text \<open>Decimal digits of a number, as a template literal prints it (below \<open>10^21\<close>).\<close>

definition digitChar :: "nat \<Rightarrow> char" where
  "digitChar d = ''0123456789'' ! d"

fun showNat :: "nat \<Rightarrow> string" where
  "showNat n =
     (if n < 10 then [digitChar n]
      else showNat (n div 10) @ [digitChar (n mod 10)])"

declare showNat.simps [simp del]


subsection \<open>Listeners on the child\<close>

text \<open>
  The listeners that \<^verbatim>\<open>_startInternal\<close> attaches to the child it spawned: stdout
  \<^verbatim>\<open>data\<close> (every chunk with a match assigns \<^verbatim>\<open>this.port\<close>), \<^verbatim>\<open>close\<close> and
  \<^verbatim>\<open>error\<close>. The listener of stderr only logs.
\<close>

definition onStdout :: "string \<Rightarrow> BackendManager \<Rightarrow> BackendManager" where
  "onStdout chunk s =
     (case announcedPort chunk of None \<Rightarrow> s | Some n \<Rightarrow> s\<lparr>port := Some n\<rparr>)"

definition onClose :: "BackendManager \<Rightarrow> BackendManager" where
  "onClose s = s\<lparr>isRunning := False, port := None, process := None\<rparr>"

definition onError :: "BackendManager \<Rightarrow> BackendManager" where
  "onError s = s\<lparr>isRunning := False, port := None\<rparr>"

subsection \<open>start()\<close>

text \<open>
  The status built in the \<^verbatim>\<open>catch\<close> block of \<^verbatim>\<open>_startInternal\<close>, from the message of
  the \<^verbatim>\<open>Error\<close> caught (\<open>None\<close>: the value caught is not an \<^verbatim>\<open>Error\<close>).
\<close>

definition failedStatus :: "string option \<Rightarrow> BackendStatus" where
  "failedStatus m =
     \<lparr>st_isRunning = False, st_port = None, st_pid = None,
      st_error = Some (case m of Some msg \<Rightarrow> msg | None \<Rightarrow> ''Unknown error'')\<rparr>"

text \<open>
  How a suspended \<^verbatim>\<open>_startInternal\<close> ends: the \<^verbatim>\<open>try\<close> block returns a status
  (\<open>Inr\<close>) or throws (\<open>Inl\<close>), the \<^verbatim>\<open>catch\<close> block turns what was thrown into a
  status, the \<^verbatim>\<open>finally\<close> block clears \<^verbatim>\<open>startupPromise\<close>, and the promise is
  fulfilled.
\<close>

definition settleStartup ::
  "nat \<Rightarrow> string option + BackendStatus \<Rightarrow> BackendManager \<Rightarrow> BackendManager" where
  "settleStartup p r s =
     s\<lparr>promises := (promises s)[p := Fulfilled (case r of Inl m \<Rightarrow> failedStatus m | Inr st \<Rightarrow> st)],
       startupPromise := None, phase := NoStartup\<rparr>"

text \<open>
  What \<^verbatim>\<open>spawn\<close> does when it is reached: it throws, or it returns a child whose
  \<^verbatim>\<open>pid\<close> may be \<^verbatim>\<open>undefined\<close>.
\<close>

datatype spawn_result = SpawnThrows "string option" | Spawned "nat option"

text \<open>
  \<^verbatim>\<open>_startInternal\<close> up to its first \<^verbatim>\<open>await\<close>: the promise it returns and the state
  it leaves. When the backend is running it returns \<^verbatim>\<open>getStatus()\<close> before the
  \<^verbatim>\<open>try\<close> statement, so the \<^verbatim>\<open>finally\<close> block does not run. When \<^verbatim>\<open>spawn\<close> throws,
  \<^verbatim>\<open>catch\<close> and \<^verbatim>\<open>finally\<close> run at once. Otherwise the child is stored, the listeners
  are attached and the call is suspended in \<^verbatim>\<open>waitForPort\<close>.
\<close>

definition startInternal :: "spawn_result \<Rightarrow> BackendManager \<Rightarrow> nat \<times> BackendManager" where
  "startInternal sp s =
     (let p = length (promises s)
      in if isRunning s
         then (p, s\<lparr>promises := promises s @ [Fulfilled (backend_getStatus s)]\<rparr>)
         else
           case sp of
             SpawnThrows m \<Rightarrow>
               (p, s\<lparr>promises := promises s @ [Fulfilled (failedStatus m)],
                     startupPromise := None\<rparr>)
           | Spawned pd \<Rightarrow>
               (p, s\<lparr>process := Some \<lparr>child = spawned s, pid = pd\<rparr>,
                     children := children s @ [spawned s],
                     spawned := spawned s + 1,
                     promises := promises s @ [Pending],
                     phase := AwaitPort p (orNull pd)\<rparr>))"

text \<open>
  \<^verbatim>\<open>start()\<close>: the promise it returns (the caller's promise follows it) and the new
  state. The assignment to \<^verbatim>\<open>startupPromise\<close> comes after \<^verbatim>\<open>_startInternal\<close> has run
  to its first \<^verbatim>\<open>await\<close>.
\<close>

definition backend_start :: "spawn_result \<Rightarrow> BackendManager \<Rightarrow> nat \<times> BackendManager" where
  "backend_start sp s =
     (case startupPromise s of
        Some p \<Rightarrow> (p, s)
      | None \<Rightarrow>
          (case startInternal sp s of (p, s1) \<Rightarrow> (p, s1\<lparr>startupPromise := Some p\<rparr>)))"

subsection \<open>waitForPort and waitForHealthy\<close>

definition portTimeoutMessage :: string where
  "portTimeoutMessage = ''Backend did not announce port within timeout''"

definition healthTimeoutMessage :: string where
  "healthTimeoutMessage = ''Backend did not become healthy within timeout''"

definition portUnavailableMessage :: string where
  "portUnavailableMessage = ''Cannot check health: port not available''"

text \<open>
  The head of the \<^verbatim>\<open>while\<close> loop of \<^verbatim>\<open>waitForHealthy\<close> at time \<open>now\<close>: another
  request while the time is not up, the timeout error otherwise.
\<close>

definition waitForHealthy_loop ::
  "nat \<Rightarrow> nat option \<Rightarrow> nat \<Rightarrow> int \<Rightarrow> int \<Rightarrow> BackendManager \<Rightarrow> BackendManager" where
  "waitForHealthy_loop p pd n t0 now s =
     (if now - t0 < BACKEND_STARTUP_TIMEOUT_MS
      then s\<lparr>phase := AwaitProbe p pd n t0, probes := probes s + 1\<rparr>
      else settleStartup p (Inl (Some healthTimeoutMessage)) s)"

text \<open>
  The callback of the 100 ms interval of \<^verbatim>\<open>waitForPort\<close>, at time \<open>now\<close>. When the
  port is set the promise of \<^verbatim>\<open>waitForPort\<close> is resolved, and \<^verbatim>\<open>_startInternal\<close> goes
  on before any other event: it sets \<^verbatim>\<open>isRunning\<close> and enters \<^verbatim>\<open>waitForHealthy\<close>, which
  throws when \<^verbatim>\<open>this.port\<close> is 0 and sends its first request otherwise.
\<close>

definition portPollTick :: "int \<Rightarrow> BackendManager \<Rightarrow> BackendManager option" where
  "portPollTick now s =
     (case phase s of
        AwaitPort p pd \<Rightarrow>
          (case port s of
             None \<Rightarrow> Some s
           | Some n \<Rightarrow>
               let s1 = s\<lparr>isRunning := True\<rparr>
               in if n = 0 then Some (settleStartup p (Inl (Some portUnavailableMessage)) s1)
                  else Some (waitForHealthy_loop p pd n now now s1))
      | _ \<Rightarrow> None)"

text \<open>
  The callback of the timeout of \<^verbatim>\<open>waitForPort\<close>: the promise is rejected. The
  interval is not cleared then; its later callbacks can only resolve a promise that is
  already rejected, which does nothing, so they are not events here.
\<close>

definition portTimeout :: "BackendManager \<Rightarrow> BackendManager option" where
  "portTimeout s =
     (case phase s of
        AwaitPort p pd \<Rightarrow> Some (settleStartup p (Inl (Some portTimeoutMessage)) s)
      | _ \<Rightarrow> None)"

text \<open>
  The request of \<^verbatim>\<open>waitForHealthy\<close> settles at time \<open>now\<close>: with a body whose status is
  \<^verbatim>\<open>healthy\<close>, with another answer, or by throwing (then the loop sleeps 500 ms).
\<close>

datatype probe_result = ProbeHealthy | ProbeOther | ProbeFailed

definition probeSettled :: "probe_result \<Rightarrow> int \<Rightarrow> BackendManager \<Rightarrow> BackendManager option" where
  "probeSettled r now s =
     (case phase s of
        AwaitProbe p pd n t0 \<Rightarrow>
          (case r of
             ProbeHealthy \<Rightarrow>
               Some (settleStartup p
                       (Inr \<lparr>st_isRunning = True, st_port = Some n, st_pid = pd, st_error = None\<rparr>) s)
           | ProbeOther \<Rightarrow> Some (waitForHealthy_loop p pd n t0 now s)
           | ProbeFailed \<Rightarrow> Some (s\<lparr>phase := AwaitSleep p pd n t0\<rparr>))
      | _ \<Rightarrow> None)"

definition sleepDone :: "int \<Rightarrow> BackendManager \<Rightarrow> BackendManager option" where
  "sleepDone now s =
     (case phase s of
        AwaitSleep p pd n t0 \<Rightarrow> Some (waitForHealthy_loop p pd n t0 now s)
      | _ \<Rightarrow> None)"

subsection \<open>stop()\<close>

text \<open>
  \<^verbatim>\<open>stop()\<close>: the promise it returns and the new state. With a child stored it attaches
  a \<^verbatim>\<open>close\<close> listener to that child, sends SIGTERM and starts the 5 s timer; with none
  the promise is resolved at once.
\<close>

definition backend_stop :: "BackendManager \<Rightarrow> nat \<times> BackendManager" where
  "backend_stop s =
     (let k = length (stopPromises s)
      in case process s of
           None \<Rightarrow> (k, s\<lparr>stopPromises := stopPromises s @ [StopResolved]\<rparr>)
         | Some c \<Rightarrow>
             (k, s\<lparr>stopPromises := stopPromises s @ [StopPending (child c)],
                   signals := signals s @ [(child c, SIGTERM)],
                   killTimers := killTimers s + 1\<rparr>))"

text \<open>The callback of a 5 s timer of \<^verbatim>\<open>stop()\<close>.\<close>

definition killTimer :: "BackendManager \<Rightarrow> BackendManager option" where
  "killTimer s =
     (if killTimers s = 0 then None
      else
        let s1 = s\<lparr>killTimers := killTimers s - 1\<rparr>
        in case process s1 of
             None \<Rightarrow> Some s1
           | Some c \<Rightarrow> Some (s1\<lparr>signals := signals s1 @ [(child c, SIGKILL)]\<rparr>))"

text \<open>
  The \<^verbatim>\<open>close\<close> event of child \<open>h\<close>: the listener of \<^verbatim>\<open>_startInternal\<close> runs, then the
  listeners that calls of \<^verbatim>\<open>stop()\<close> attached to this child, which make the same
  assignments and resolve their promises.
\<close>

definition closeEvent :: "nat \<Rightarrow> BackendManager \<Rightarrow> BackendManager option" where
  "closeEvent h s =
     (if h \<in> set (children s)
      then Some ((onClose s)
                  \<lparr>children := removeAll h (children s),
                   stopPromises :=
                     map (\<lambda>q. if q = StopPending h then StopResolved else q) (stopPromises s)\<rparr>)
      else None)"

subsection \<open>Events\<close>

text \<open>
  What can happen to the manager, one event of the event loop at a time: a call of
  \<^verbatim>\<open>start()\<close> or \<^verbatim>\<open>stop()\<close>, an event of a child that has not closed, a timer
  callback, a request settling. \<open>None\<close> means the event cannot happen in that state.
\<close>

datatype backend_event =
    Start spawn_result
  | Stop
  | StdoutData nat string
  | StderrData nat string
  | Close nat
  | ProcError nat
  | PortPollTick int
  | PortTimeout
  | ProbeSettled probe_result int
  | SleepDone int
  | KillTimer

definition backend_step :: "backend_event \<Rightarrow> BackendManager \<Rightarrow> BackendManager option" where
  "backend_step e s =
     (case e of
        Start sp \<Rightarrow> Some (snd (backend_start sp s))
      | Stop \<Rightarrow> Some (snd (backend_stop s))
      | StdoutData h chunk \<Rightarrow> if h \<in> set (children s) then Some (onStdout chunk s) else None
      | StderrData h chunk \<Rightarrow> if h \<in> set (children s) then Some s else None
      | Close h \<Rightarrow> closeEvent h s
      | ProcError h \<Rightarrow> if h \<in> set (children s) then Some (onError s) else None
      | PortPollTick now \<Rightarrow> portPollTick now s
      | PortTimeout \<Rightarrow> portTimeout s
      | ProbeSettled r now \<Rightarrow> probeSettled r now s
      | SleepDone now \<Rightarrow> sleepDone now s
      | KillTimer \<Rightarrow> killTimer s)"

fun backend_run :: "backend_event list \<Rightarrow> BackendManager \<Rightarrow> BackendManager option" where
  "backend_run [] s = Some s"
| "backend_run (e # es) s =
     (case backend_step e s of None \<Rightarrow> None | Some s' \<Rightarrow> backend_run es s')"

subsection \<open>Notions used in the statements\<close>

text \<open>
  A status is coherent when it has \<open>isRunning = True\<close> and no error, or
  \<open>isRunning = False\<close> and an error; a promise is in order when it is pending or
  fulfilled with a coherent status.
\<close>

definition statusOk :: "BackendStatus \<Rightarrow> bool" where
  "statusOk st = (st_isRunning st = (st_error st = None))"

definition promiseOk :: "promise \<Rightarrow> bool" where
  "promiseOk q = (case q of Pending \<Rightarrow> True | Fulfilled st \<Rightarrow> statusOk st | RejectedWith m \<Rightarrow> False)"

text \<open>
  The promise of the call of \<^verbatim>\<open>_startInternal\<close> that is suspended, if any.
\<close>

definition startupOf :: "startup_phase \<Rightarrow> nat option" where
  "startupOf ph =
     (case ph of NoStartup \<Rightarrow> None | AwaitPort p pd \<Rightarrow> Some p
      | AwaitProbe p pd n t0 \<Rightarrow> Some p | AwaitSleep p pd n t0 \<Rightarrow> Some p)"

text \<open>
  What holds in every state the manager can reach: the suspended call of
  \<^verbatim>\<open>_startInternal\<close> is the one \<^verbatim>\<open>startupPromise\<close> holds and its promise is pending; every
  promise is in order; the child stored in \<^verbatim>\<open>process\<close> has not closed; the identities
  of the children are below the number spawned.
\<close>

definition backend_inv :: "BackendManager \<Rightarrow> bool" where
  "backend_inv s =
     ((\<forall>p. startupOf (phase s) = Some p \<longrightarrow>
          startupPromise s = Some p \<and> p < length (promises s) \<and> promises s ! p = Pending)
      \<and> (\<forall>q \<in> set (promises s). promiseOk q)
      \<and> (\<forall>c. process s = Some c \<longrightarrow> child c \<in> set (children s))
      \<and> (\<forall>h \<in> set (children s). h < spawned s))"





text \<open>
  Events of the grace period of \<^verbatim>\<open>stop()\<close> in which no child closes, \<^verbatim>\<open>start()\<close> is
  not called and no 5 s timer fires. \<open>isExit\<close>: the \<^verbatim>\<open>close\<close> event of a child.
\<close>

fun noExitNoSpawn :: "backend_event \<Rightarrow> bool" where
  "noExitNoSpawn (Close h) = False"
| "noExitNoSpawn (Start sp) = False"
| "noExitNoSpawn KillTimer = False"
| "noExitNoSpawn e = True"

fun isExit :: "backend_event \<Rightarrow> bool" where
  "isExit (Close h) = True"
| "isExit e = False"

text \<open>
  The fields that the steps of a suspended \<^verbatim>\<open>_startInternal\<close> leave alone.
\<close>

definition sameOutside :: "BackendManager \<Rightarrow> BackendManager \<Rightarrow> bool" where
  "sameOutside s s' =
     (process s' = process s \<and> port s' = port s \<and> stopPromises s' = stopPromises s
      \<and> killTimers s' = killTimers s \<and> signals s' = signals s \<and> children s' = children s
      \<and> spawned s' = spawned s)"

text \<open>
  The port announced by the last chunk that announces one.
\<close>

definition latestAnnounced :: "string list \<Rightarrow> nat option" where
  "latestAnnounced chunks =
     (let anns = filter (\<lambda>a. a \<noteq> None) (map announcedPort chunks)
      in if anns = [] then None else last anns)"

section \<open>Properties of the health check service\<close>

lemmas health_defs =
  health_start_def health_stop_def performCheck_def performCheck_settled_def
  handleFailure_def handleSuccess_def handleCriticalFailure_def notifyRenderer_def
  health_getStatus_def windowUsable_def HEALTH_CHECK_FAILURE_THRESHOLD_def

lemma health_inv_init: "health_inv health_init"
  by (simp add: health_inv_def health_init_def HEALTH_CHECK_FAILURE_THRESHOLD_def)

lemma health_inv_notify: "health_inv (notifyRenderer s) = health_inv s"
  by (simp add: health_inv_def notifyRenderer_def)

lemma health_inv_stop: "health_inv s \<Longrightarrow> health_inv (health_stop s)"
  by (auto simp: health_inv_def health_stop_def Let_def split: option.splits)

lemma health_inv_handleSuccess: "health_inv s \<Longrightarrow> health_inv (handleSuccess now s)"
  by (simp add: health_inv_def handleSuccess_def notifyRenderer_def HEALTH_CHECK_FAILURE_THRESHOLD_def)

lemma health_inv_handleFailure: "health_inv s \<Longrightarrow> health_inv (handleFailure err now s)"
  by (auto simp: health_inv_def health_defs Let_def split: option.splits)

lemma health_inv_ghost:
  "health_inv (s\<lparr>checks := c\<rparr>) = health_inv s"
  "health_inv (s\<lparr>inflight := i\<rparr>) = health_inv s"
  "health_inv (s\<lparr>dialogs := d\<rparr>) = health_inv s"
  "health_inv (s\<lparr>mainWindow := w\<rparr>) = health_inv s"
  by (simp_all add: health_inv_def)

lemma health_inv_performCheck: "health_inv s \<Longrightarrow> health_inv (performCheck u now s)"
  by (simp add: performCheck_def Let_def health_inv_handleFailure health_inv_ghost split: option.splits)

lemma health_inv_settled: "health_inv s \<Longrightarrow> health_inv (performCheck_settled r now s)"
  by (simp add: performCheck_settled_def health_inv_handleFailure health_inv_handleSuccess split: http_outcome.splits)

lemma health_inv_start: "health_inv s \<Longrightarrow> health_inv (health_start u now s)"
  by (auto simp: health_inv_def health_defs Let_def split: option.splits)

lemma health_inv_step:
  "health_inv s \<Longrightarrow> health_step e s = Some s' \<Longrightarrow> health_inv s'"
  by (cases e)
     (auto simp: health_step_def setMainWindow_def health_inv_ghost health_inv_start health_inv_stop
        health_inv_performCheck health_inv_settled health_inv_notify
        split: if_splits option.splits)

lemma health_inv_run:
  "health_inv s \<Longrightarrow> health_run es s = Some s' \<Longrightarrow> health_inv s'"
  by (induction es arbitrary: s) (auto split: option.splits dest: health_inv_step)

lemma health_reachable_inv: "health_run es health_init = Some s \<Longrightarrow> health_inv s"
  using health_inv_run health_inv_init by blast

subsection \<open>Failing checks and the schedule\<close>

lemma handleFailure_count:
  "consecutiveFailures (status (handleFailure err now s)) = consecutiveFailures (status s) + 1"
  by (simp add: health_defs health_inv_def Let_def split: option.splits)

lemma handleFailure_below:
  "consecutiveFailures (status s) + 1 < HEALTH_CHECK_FAILURE_THRESHOLD \<Longrightarrow>
   timers (handleFailure err now s) = timers s \<and> hcIsRunning (handleFailure err now s) = hcIsRunning s
   \<and> intervalId (handleFailure err now s) = intervalId s \<and> checks (handleFailure err now s) = checks s"
  by (simp add: health_defs Let_def split: option.splits)

lemma performCheck_count:
  "consecutiveFailures (status (performCheck u now s)) =
     consecutiveFailures (status s) + (if noUrl u then 1 else 0)"
  by (simp add: performCheck_def noUrl_def Let_def handleFailure_count split: option.splits)

lemma performCheck_below:
  "consecutiveFailures (status (performCheck u now s)) < HEALTH_CHECK_FAILURE_THRESHOLD \<Longrightarrow>
   timers (performCheck u now s) = timers s \<and> hcIsRunning (performCheck u now s) = hcIsRunning s
   \<and> intervalId (performCheck u now s) = intervalId s"
  by (simp add: performCheck_def noUrl_def Let_def handleFailure_count handleFailure_below
        split: option.splits if_splits)

lemma settled_count:
  "r \<noteq> Response ''healthy'' \<Longrightarrow>
   consecutiveFailures (status (performCheck_settled r now s)) = consecutiveFailures (status s) + 1"
  by (simp add: performCheck_settled_def handleFailure_count split: http_outcome.splits)

lemma settled_below:
  "r \<noteq> Response ''healthy'' \<Longrightarrow>
   consecutiveFailures (status (performCheck_settled r now s)) < HEALTH_CHECK_FAILURE_THRESHOLD \<Longrightarrow>
   timers (performCheck_settled r now s) = timers s \<and> hcIsRunning (performCheck_settled r now s) = hcIsRunning s
   \<and> intervalId (performCheck_settled r now s) = intervalId s"
  by (simp add: performCheck_settled_def handleFailure_count handleFailure_below
        split: http_outcome.splits if_splits)

lemma notifyRenderer_fields:
  "status (notifyRenderer s) = status s" "timers (notifyRenderer s) = timers s"
  "hcIsRunning (notifyRenderer s) = hcIsRunning s" "intervalId (notifyRenderer s) = intervalId s"
  "checks (notifyRenderer s) = checks s"
  by (simp_all add: notifyRenderer_def)

lemma step_noSuccessNoCall:
  assumes "noSuccessNoCall e" and "health_step e s = Some s1"
  shows "consecutiveFailures (status s1) = consecutiveFailures (status s) + (if failingCheck e then 1 else 0)
     \<and> (consecutiveFailures (status s1) < HEALTH_CHECK_FAILURE_THRESHOLD \<longrightarrow>
           timers s1 = timers s \<and> hcIsRunning s1 = hcIsRunning s \<and> intervalId s1 = intervalId s)"
proof (cases e)
  case (HTick h u now)
  with assms(2) have "s1 = performCheck u now s"
    by (simp add: health_step_def split: if_splits)
  then show ?thesis using HTick performCheck_below [of u now s]
    by (simp add: performCheck_count)
next
  case (HSettled r now)
  with assms have r: "r \<noteq> Response ''healthy''"
    and s1: "s1 = performCheck_settled r now (s\<lparr>inflight := inflight s - 1\<rparr>)"
    by (simp_all add: health_step_def split: if_splits)
  show ?thesis using HSettled r settled_below [OF r, of now "s\<lparr>inflight := inflight s - 1\<rparr>"]
    by (simp add: s1 settled_count)
next
  case HDialogClosed
  with assms(2) show ?thesis
    by (auto simp: health_step_def notifyRenderer_fields split: if_splits)
next
  case (HSetMainWindow d)
  with assms(2) show ?thesis by (auto simp: health_step_def setMainWindow_def)
next
  case HWindowDestroyed
  with assms(2) show ?thesis by (auto simp: health_step_def split: option.splits)
qed (use assms in simp_all)

lemma run_noSuccessNoCall:
  assumes "\<forall>e \<in> set es. noSuccessNoCall e" and "health_run es s = Some s'"
  shows "consecutiveFailures (status s') = consecutiveFailures (status s) + failures es
     \<and> (consecutiveFailures (status s') < HEALTH_CHECK_FAILURE_THRESHOLD \<longrightarrow>
           timers s' = timers s \<and> hcIsRunning s' = hcIsRunning s \<and> intervalId s' = intervalId s)"
  using assms
proof (induction es arbitrary: s)
  case Nil
  then show ?case by (simp add: failures_def)
next
  case (Cons e es)
  from Cons.prems obtain s1 where s1: "health_step e s = Some s1" and r: "health_run es s1 = Some s'"
    by (auto split: option.splits)
  from Cons.prems have e: "noSuccessNoCall e" and es: "\<forall>e \<in> set es. noSuccessNoCall e" by auto
  note ih = Cons.IH [OF es r]
  note st = step_noSuccessNoCall [OF e s1]
  have c: "consecutiveFailures (status s') = consecutiveFailures (status s) + failures (e # es)"
    using ih st by (simp add: failures_def)
  have "consecutiveFailures (status s1) \<le> consecutiveFailures (status s')" using ih by simp
  then show ?case using c ih st by auto
qed

lemma stop_no_timers: "timers s = [] \<Longrightarrow> timers (health_stop s) = [] \<and> checks (health_stop s) = checks s"
  by (simp add: health_stop_def Let_def split: option.splits)

lemma handleFailure_no_timers:
  "timers s = [] \<Longrightarrow> timers (handleFailure err now s) = [] \<and> checks (handleFailure err now s) = checks s"
  by (simp add: handleFailure_def handleCriticalFailure_def Let_def notifyRenderer_fields stop_no_timers)

lemma settled_no_timers:
  "timers s = [] \<Longrightarrow> timers (performCheck_settled r now s) = [] \<and> checks (performCheck_settled r now s) = checks s"
  by (simp add: performCheck_settled_def handleFailure_no_timers handleSuccess_def notifyRenderer_fields
        split: http_outcome.splits)

lemma step_no_timers:
  assumes "timers s = []" and "\<not> isStart e" and "health_step e s = Some s1"
  shows "timers s1 = [] \<and> checks s1 = checks s"
proof (cases e)
  case HStop
  with assms show ?thesis by (auto simp: health_step_def stop_no_timers)
next
  case (HSettled r now)
  with assms(3) have "s1 = performCheck_settled r now (s\<lparr>inflight := inflight s - 1\<rparr>)"
    by (simp add: health_step_def split: if_splits)
  then show ?thesis using assms(1) settled_no_timers [of "s\<lparr>inflight := inflight s - 1\<rparr>" r now]
    by simp
next
  case HDialogClosed
  with assms show ?thesis by (auto simp: health_step_def notifyRenderer_fields split: if_splits)
next
  case (HSetMainWindow d)
  with assms show ?thesis by (auto simp: health_step_def setMainWindow_def)
next
  case HWindowDestroyed
  with assms show ?thesis by (auto simp: health_step_def split: option.splits)
qed (use assms in \<open>simp_all add: health_step_def\<close>)

lemma run_no_timers:
  assumes "timers s = []" and "\<forall>e \<in> set es. \<not> isStart e" and "health_run es s = Some s'"
  shows "timers s' = [] \<and> checks s' = checks s"
  using assms
proof (induction es arbitrary: s)
  case Nil
  then show ?case by simp
next
  case (Cons e es)
  then show ?case
    by (fastforce split: option.splits dest: step_no_timers)
qed

lemma handleFailure_isHealthy:
  "isHealthy (status (handleFailure err now s)) =
     (isHealthy (status s) \<and> consecutiveFailures (status s) + 1 < HEALTH_CHECK_FAILURE_THRESHOLD)"
  by (simp add: handleFailure_def handleCriticalFailure_def health_stop_def notifyRenderer_fields Let_def
        split: option.splits)

lemma handleSuccess_status:
  "status (handleSuccess now s) =
     \<lparr>isHealthy = True, consecutiveFailures = 0, lastCheck = Some now, error = None\<rparr>"
  by (simp add: handleSuccess_def notifyRenderer_fields)

lemma health_stop_status: "status (health_stop s) = status s"
  by (simp add: health_stop_def Let_def split: option.splits)

lemma performCheck_isHealthy:
  "isHealthy (status (performCheck u now s)) =
     (isHealthy (status s) \<and> (noUrl u \<longrightarrow> consecutiveFailures (status s) + 1 < HEALTH_CHECK_FAILURE_THRESHOLD))"
  by (simp add: performCheck_def noUrl_def Let_def handleFailure_isHealthy split: option.splits)

lemma settled_isHealthy:
  "r \<noteq> Response ''healthy'' \<Longrightarrow>
   isHealthy (status (performCheck_settled r now s)) =
     (isHealthy (status s) \<and> consecutiveFailures (status s) + 1 < HEALTH_CHECK_FAILURE_THRESHOLD)"
  by (simp add: performCheck_settled_def handleFailure_isHealthy split: http_outcome.splits)

lemma settled_healthy: "performCheck_settled (Response ''healthy'') now s = handleSuccess now s"
  by (simp add: performCheck_settled_def)

lemma health_start_status:
  "status (health_start u now s) =
     (if hcIsRunning s then status s
      else status (performCheck u now
             (s\<lparr>hcIsRunning := True,
                status := (status s)\<lparr>consecutiveFailures := 0, isHealthy := True\<rparr>\<rparr>)))"
  by (simp add: health_start_def Let_def)

lemma step_flip_down:
  assumes "health_inv s" and "health_step e s = Some s'"
    and "isHealthy (status s)" and "\<not> isHealthy (status s')"
  shows "failingCheck e \<and> consecutiveFailures (status s) + 1 = HEALTH_CHECK_FAILURE_THRESHOLD
       \<and> consecutiveFailures (status s') = HEALTH_CHECK_FAILURE_THRESHOLD"
proof (cases e)
  case (HStart u now)
  with assms(2) have "s' = health_start u now s" by (simp add: health_step_def)
  then have "isHealthy (status s')"
    using assms(3)
    by (simp add: health_start_status performCheck_isHealthy HEALTH_CHECK_FAILURE_THRESHOLD_def)
  with assms(4) show ?thesis by simp
next
  case HStop
  with assms show ?thesis by (auto simp: health_step_def health_stop_status)
next
  case (HTick h u now)
  with assms(2) have s': "s' = performCheck u now s" by (simp add: health_step_def split: if_splits)
  with assms(3,4) have "noUrl u" and "\<not> consecutiveFailures (status s) + 1 < HEALTH_CHECK_FAILURE_THRESHOLD"
    by (simp_all add: performCheck_isHealthy)
  moreover have "consecutiveFailures (status s) < HEALTH_CHECK_FAILURE_THRESHOLD"
    using assms(1,3) by (simp add: health_inv_def)
  ultimately show ?thesis using HTick s' by (simp add: performCheck_count)
next
  case (HSettled r now)
  with assms(2) have s': "s' = performCheck_settled r now (s\<lparr>inflight := inflight s - 1\<rparr>)"
    by (simp add: health_step_def split: if_splits)
  have r: "r \<noteq> Response ''healthy''"
    using assms(4) s' by (auto simp: settled_healthy handleSuccess_status)
  with assms(3,4) s' have "\<not> consecutiveFailures (status s) + 1 < HEALTH_CHECK_FAILURE_THRESHOLD"
    by (simp add: settled_isHealthy)
  moreover have "consecutiveFailures (status s) < HEALTH_CHECK_FAILURE_THRESHOLD"
    using assms(1,3) by (simp add: health_inv_def)
  ultimately show ?thesis using HSettled s' r by (simp add: settled_count)
next
  case HDialogClosed
  with assms show ?thesis by (auto simp: health_step_def notifyRenderer_fields split: if_splits)
next
  case (HSetMainWindow d)
  with assms show ?thesis by (auto simp: health_step_def setMainWindow_def)
next
  case HWindowDestroyed
  with assms show ?thesis by (auto simp: health_step_def split: option.splits)
qed

lemma step_flip_up:
  assumes "health_step e s = Some s'"
    and "\<not> isHealthy (status s)" and "isHealthy (status s')"
  shows "(\<exists>now. e = HSettled (Response ''healthy'') now \<and> consecutiveFailures (status s') = 0)
       \<or> (\<exists>baseUrl now. e = HStart baseUrl now \<and> \<not> hcIsRunning s
             \<and> consecutiveFailures (status s') = (if noUrl baseUrl then 1 else 0))"
proof (cases e)
  case (HStart u now)
  with assms show ?thesis
    by (auto simp: health_step_def health_start_status performCheck_count split: if_splits)
next
  case HStop
  with assms show ?thesis by (auto simp: health_step_def health_stop_status)
next
  case (HTick h u now)
  with assms show ?thesis by (auto simp: health_step_def performCheck_isHealthy split: if_splits)
next
  case (HSettled r now)
  with assms(1) have s': "s' = performCheck_settled r now (s\<lparr>inflight := inflight s - 1\<rparr>)"
    by (simp add: health_step_def split: if_splits)
  have "r = Response ''healthy''"
    using assms(2,3) s' settled_isHealthy [of r now "s\<lparr>inflight := inflight s - 1\<rparr>"] by auto
  then show ?thesis using HSettled s' by (simp add: settled_healthy handleSuccess_status)
next
  case HDialogClosed
  with assms show ?thesis by (auto simp: health_step_def notifyRenderer_fields split: if_splits)
next
  case (HSetMainWindow d)
  with assms show ?thesis by (auto simp: health_step_def setMainWindow_def)
next
  case HWindowDestroyed
  with assms show ?thesis by (auto simp: health_step_def split: option.splits)
qed

lemmas health_eval =
  health_step_def health_start_def health_stop_def performCheck_def performCheck_settled_def
  handleFailure_def handleSuccess_def handleCriticalFailure_def notifyRenderer_def
  health_getStatus_def windowUsable_def HEALTH_CHECK_FAILURE_THRESHOLD_def health_init_def
  setMainWindow_def Let_def

lemma three_failures_run:
  "health_run [HStart None 0, HTick 0 None 5000, HTick 0 None 10000] health_init =
     Some \<lparr>status = \<lparr>isHealthy = False, consecutiveFailures = 3, lastCheck = Some 10000,
                     error = Some ''Backend URL not available''\<rparr>,
            intervalId = None, hcIsRunning = False, mainWindow = None, timers = [],
            nextTimer = 1, inflight = 0, dialogs = 0, sent = [], checks = 3\<rparr>"
  by (simp add: health_eval)

subsection \<open>The claims about the health check service\<close>

paragraph \<open>Claim C1\<close>

text \<open>
  Claim C1. Take the service in a state it can reach, with the counter at 0 (as
  \<^verbatim>\<open>start()\<close> leaves it), and let only checks that fail, interval callbacks and
  dialog or window events follow (no successful check, no call of \<^verbatim>\<open>start()\<close> or
  \<^verbatim>\<open>stop()\<close>). Then the counter equals the number of failed checks; \<open>isHealthy\<close>
  is true exactly while fewer than three checks have failed, so it goes down on the
  third failure and not before; the interval is untouched before the third failure;
  from the third failure on no interval is alive, so no interval callback can run,
  and as long as \<^verbatim>\<open>start()\<close> is not called again the number of checks begun stays
  the same.
\<close>

theorem health_threshold_stops_polling:
  assumes "health_inv s"
    and "consecutiveFailures (status s) = 0"
    and "\<forall>e \<in> set es. noSuccessNoCall e"
    and "health_run es s = Some s'"
  shows "consecutiveFailures (status s') = failures es
     \<and> isHealthy (status s') = (failures es < 3)
     \<and> (failures es < 3 \<longrightarrow>
           timers s' = timers s \<and> intervalId s' = intervalId s \<and> hcIsRunning s' = hcIsRunning s)
     \<and> (3 \<le> failures es \<longrightarrow>
           timers s' = [] \<and> intervalId s' = None \<and> \<not> hcIsRunning s'
           \<and> (\<forall>h baseUrl now. health_step (HTick h baseUrl now) s' = None)
           \<and> (\<forall>es' s''. (\<forall>e \<in> set es'. \<not> isStart e) \<and> health_run es' s' = Some s''
                 \<longrightarrow> timers s'' = [] \<and> checks s'' = checks s'))"
proof -
  have inv': "health_inv s'" using assms(1,4) by (rule health_inv_run)
  have r: "consecutiveFailures (status s') = failures es
     \<and> (consecutiveFailures (status s') < HEALTH_CHECK_FAILURE_THRESHOLD \<longrightarrow>
           timers s' = timers s \<and> hcIsRunning s' = hcIsRunning s \<and> intervalId s' = intervalId s)"
    using run_noSuccessNoCall [OF assms(3,4)] assms(2) by simp
  have h: "isHealthy (status s') = (failures es < 3)"
    using inv' r by (auto simp: health_inv_def HEALTH_CHECK_FAILURE_THRESHOLD_def)
  have stopped: "timers s' = [] \<and> intervalId s' = None \<and> \<not> hcIsRunning s'" if "3 \<le> failures es"
    using inv' r that by (auto simp: health_inv_def HEALTH_CHECK_FAILURE_THRESHOLD_def)
  have notick: "health_step (HTick h baseUrl now) s' = None" if "3 \<le> failures es" for h baseUrl now
    using stopped [OF that] by (simp add: health_step_def)
  have frozen: "timers s'' = [] \<and> checks s'' = checks s'"
    if "3 \<le> failures es" and "\<forall>e \<in> set es'. \<not> isStart e" and "health_run es' s' = Some s''" for es' s''
    using run_no_timers [OF _ that(2,3)] stopped [OF that(1)] by simp
  show ?thesis using r h stopped notick frozen
    by (simp add: HEALTH_CHECK_FAILURE_THRESHOLD_def) blast
qed

text \<open>The theorem of claim C1 at a concrete run: a rejected request, then two interval callbacks that find no URL.\<close>

theorem health_threshold_stops_polling_witness:
  "health_inv (health_start (Some ''http://127.0.0.1:54321'') 0 health_init)
   \<and> consecutiveFailures (status (health_start (Some ''http://127.0.0.1:54321'') 0 health_init)) = 0
   \<and> health_run [HSettled (Rejected None) 100, HTick 0 None 5000, HTick 0 None 10000]
        (health_start (Some ''http://127.0.0.1:54321'') 0 health_init) =
      Some \<lparr>status = \<lparr>isHealthy = False, consecutiveFailures = 3, lastCheck = Some 10000,
                      error = Some ''Backend URL not available''\<rparr>,
             intervalId = None, hcIsRunning = False, mainWindow = None, timers = [],
             nextTimer = 1, inflight = 0, dialogs = 0, sent = [], checks = 3\<rparr>
   \<and> health_step (HTick 0 None 15000)
        \<lparr>status = \<lparr>isHealthy = False, consecutiveFailures = 3, lastCheck = Some 10000,
                      error = Some ''Backend URL not available''\<rparr>,
             intervalId = None, hcIsRunning = False, mainWindow = None, timers = [],
             nextTimer = 1, inflight = 0, dialogs = 0, sent = [], checks = 3\<rparr> = None"
proof -
  let ?s = "health_start (Some ''http://127.0.0.1:54321'') 0 health_init"
  let ?es = "[HSettled (Rejected None) 100, HTick 0 None 5000, HTick 0 None 10000]"
  let ?s' = "\<lparr>status = \<lparr>isHealthy = False, consecutiveFailures = 3, lastCheck = Some 10000,
                      error = Some ''Backend URL not available''\<rparr>,
             intervalId = None, hcIsRunning = False, mainWindow = None, timers = [],
             nextTimer = 1, inflight = 0, dialogs = 0, sent = [], checks = 3\<rparr>"
  have h1: "health_inv ?s" by (simp add: health_inv_def health_eval)
  have h2: "consecutiveFailures (status ?s) = 0" by (simp add: health_eval)
  have h3: "\<forall>e \<in> set ?es. noSuccessNoCall e" by simp
  have h4: "health_run ?es ?s = Some ?s'" by (simp add: health_eval)
  have f: "failures ?es = 3" by (simp add: failures_def noUrl_def)
  from health_threshold_stops_polling [OF h1 h2 h3 h4] f
  have "health_step (HTick 0 None 15000) ?s' = None" by simp
  with h1 h2 h4 show ?thesis by simp
qed

paragraph \<open>Claim C6\<close>

text \<open>
  Claim C6. In every state of the service a successful check (\<^verbatim>\<open>handleSuccess\<close>,
  which is what a request settling with a healthy body runs) leaves the status at
  \<open>isHealthy = True\<close>, \<open>consecutiveFailures = 0\<close>, \<open>error = None\<close> and
  \<open>lastCheck\<close> the current time, and sends that status to the renderer (the one
  observer the class has) when the window is there and not destroyed.
\<close>

theorem handleSuccess_resets:
  "status (handleSuccess now s) =
     \<lparr>isHealthy = True, consecutiveFailures = 0, lastCheck = Some now, error = None\<rparr>
   \<and> sent (handleSuccess now s) =
       sent s @ (if windowUsable s then [status (handleSuccess now s)] else [])
   \<and> performCheck_settled (Response ''healthy'') now s = handleSuccess now s
   \<and> (0 < inflight s \<longrightarrow>
        health_step (HSettled (Response ''healthy'') now) s =
          Some (handleSuccess now (s\<lparr>inflight := inflight s - 1\<rparr>)))"
  by (simp add: handleSuccess_def notifyRenderer_def windowUsable_def health_getStatus_def
        performCheck_settled_def health_step_def)

text \<open>The theorem of claim C6 after two failures, with one request in flight.\<close>

theorem handleSuccess_resets_witness:
  "0 < inflight
         \<lparr>status = \<lparr>isHealthy = True, consecutiveFailures = 2, lastCheck = Some 5000,
                     error = Some ''Backend URL not available''\<rparr>,
          intervalId = Some 0, hcIsRunning = True, mainWindow = Some False, timers = [0],
          nextTimer = 1, inflight = 1, dialogs = 0, sent = [], checks = 3\<rparr>
   \<and> map_option status
       (health_step (HSettled (Response ''healthy'') 10050)
         \<lparr>status = \<lparr>isHealthy = True, consecutiveFailures = 2, lastCheck = Some 5000,
                     error = Some ''Backend URL not available''\<rparr>,
          intervalId = Some 0, hcIsRunning = True, mainWindow = Some False, timers = [0],
          nextTimer = 1, inflight = 1, dialogs = 0, sent = [], checks = 3\<rparr>) =
      Some \<lparr>isHealthy = True, consecutiveFailures = 0, lastCheck = Some 10050, error = None\<rparr>
   \<and> map_option sent
       (health_step (HSettled (Response ''healthy'') 10050)
         \<lparr>status = \<lparr>isHealthy = True, consecutiveFailures = 2, lastCheck = Some 5000,
                     error = Some ''Backend URL not available''\<rparr>,
          intervalId = Some 0, hcIsRunning = True, mainWindow = Some False, timers = [0],
          nextTimer = 1, inflight = 1, dialogs = 0, sent = [], checks = 3\<rparr>) =
      Some [\<lparr>isHealthy = True, consecutiveFailures = 0, lastCheck = Some 10050, error = None\<rparr>]"
  using handleSuccess_resets [of 10050
         "\<lparr>status = \<lparr>isHealthy = True, consecutiveFailures = 2, lastCheck = Some 5000,
                     error = Some ''Backend URL not available''\<rparr>,
          intervalId = Some 0, hcIsRunning = True, mainWindow = Some False, timers = [0],
          nextTimer = 1, inflight = 1, dialogs = 0, sent = [], checks = 3\<rparr>"]
        handleSuccess_resets [of 10050
         "\<lparr>status = \<lparr>isHealthy = True, consecutiveFailures = 2, lastCheck = Some 5000,
                     error = Some ''Backend URL not available''\<rparr>,
          intervalId = Some 0, hcIsRunning = True, mainWindow = Some False, timers = [0],
          nextTimer = 1, inflight = 0, dialogs = 0, sent = [], checks = 3\<rparr>"]
  by (simp add: windowUsable_def)

paragraph \<open>Claim C7\<close>

text \<open>
  Claim C7, as amended. In every state the service can reach, \<open>isHealthy\<close> is false
  exactly when \<open>consecutiveFailures\<close> is at or over the threshold. A step takes
  \<open>isHealthy\<close> from true to false only when it is a failing check that brings the
  counter to the threshold. A step takes it from false to true only when it is a
  successful check, which leaves the counter at 0, or a call of \<^verbatim>\<open>start()\<close> on the
  stopped service, which resets the counter to 0 and then runs its immediate check
  (so the counter is 1 afterwards when no backend URL is available).
\<close>

theorem health_flag_invariant:
  assumes "health_run es health_init = Some s"
  shows "(\<not> isHealthy (status s)) = (HEALTH_CHECK_FAILURE_THRESHOLD \<le> consecutiveFailures (status s))
     \<and> (\<forall>e s'. health_step e s = Some s' \<and> isHealthy (status s) \<and> \<not> isHealthy (status s') \<longrightarrow>
            failingCheck e
            \<and> consecutiveFailures (status s) + 1 = HEALTH_CHECK_FAILURE_THRESHOLD
            \<and> consecutiveFailures (status s') = HEALTH_CHECK_FAILURE_THRESHOLD)
     \<and> (\<forall>e s'. health_step e s = Some s' \<and> \<not> isHealthy (status s) \<and> isHealthy (status s') \<longrightarrow>
            (\<exists>now. e = HSettled (Response ''healthy'') now \<and> consecutiveFailures (status s') = 0)
          \<or> (\<exists>baseUrl now. e = HStart baseUrl now \<and> \<not> hcIsRunning s
                \<and> consecutiveFailures (status s') = (if noUrl baseUrl then 1 else 0)))"
proof -
  have inv: "health_inv s" using assms by (rule health_reachable_inv)
  then have "(\<not> isHealthy (status s)) = (HEALTH_CHECK_FAILURE_THRESHOLD \<le> consecutiveFailures (status s))"
    by (simp add: health_inv_def)
  then show ?thesis using step_flip_down [OF inv] step_flip_up by blast
qed

text \<open>The theorem of claim C7 at the state reached by three failed checks.\<close>

theorem health_flag_invariant_witness:
  "health_run [HStart None 0, HTick 0 None 5000, HTick 0 None 10000] health_init =
     Some \<lparr>status = \<lparr>isHealthy = False, consecutiveFailures = 3, lastCheck = Some 10000,
                     error = Some ''Backend URL not available''\<rparr>,
            intervalId = None, hcIsRunning = False, mainWindow = None, timers = [],
            nextTimer = 1, inflight = 0, dialogs = 0, sent = [], checks = 3\<rparr>
   \<and> (\<not> isHealthy (status
          \<lparr>status = \<lparr>isHealthy = False, consecutiveFailures = 3, lastCheck = Some 10000,
                     error = Some ''Backend URL not available''\<rparr>,
            intervalId = None, hcIsRunning = False, mainWindow = None, timers = [],
            nextTimer = 1, inflight = 0, dialogs = 0, sent = [], checks = 3\<rparr>))
       = (HEALTH_CHECK_FAILURE_THRESHOLD \<le> 3)"
  using health_flag_invariant [OF three_failures_run] three_failures_run by simp

text \<open>
  Claim C7 as stated says that \<open>isHealthy\<close> goes back to true only on a successful
  check that resets the counter to 0. After three failed checks the service has stopped
  itself with \<open>isHealthy = False\<close>; a call of \<^verbatim>\<open>start()\<close> then sets
  \<open>isHealthy = True\<close> although no check has succeeded, and with no backend URL the
  counter is 1 afterwards.
\<close>

theorem restart_flips_back_counterexample:
  "map_option (isHealthy \<circ> status)
     (health_run [HStart None 0, HTick 0 None 5000, HTick 0 None 10000] health_init) = Some False
   \<and> map_option (isHealthy \<circ> status)
     (health_run [HStart None 0, HTick 0 None 5000, HTick 0 None 10000, HStart None 15000] health_init)
       = Some True
   \<and> map_option (consecutiveFailures \<circ> status)
     (health_run [HStart None 0, HTick 0 None 5000, HTick 0 None 10000, HStart None 15000] health_init)
       = Some 1"
  by (simp add: health_eval)

section \<open>Properties of the backend manager\<close>

lemma digitChar_digit: "d < 10 \<Longrightarrow> isDigit (digitChar d) \<and> digitValue (digitChar d) = d"
proof -
  assume "d < 10"
  then have "d \<in> {0, 1, 2, 3, 4, 5, 6, 7, 8, 9}" by auto
  then show ?thesis
    by (auto simp: digitChar_def isDigit_def digitValue_def)
qed

lemma isDigit_not_space: "isDigit c \<Longrightarrow> \<not> isSpace c"
  by (auto simp: isDigit_def isSpace_def)

lemma showNat_digits: "showNat n \<noteq> [] \<and> (\<forall>c \<in> set (showNat n). isDigit c)"
proof (induction n rule: showNat.induct)
  case (1 n)
  show ?case
  proof (cases "n < 10")
    case True
    then show ?thesis by (simp add: showNat.simps [of n] digitChar_digit)
  next
    case False
    then show ?thesis using 1 by (simp add: showNat.simps [of n] digitChar_digit)
  qed
qed

lemma parseInt_snoc: "parseInt (ds @ [c]) = 10 * parseInt ds + digitValue c"
  by (simp add: parseInt_def)

lemma parseInt_showNat: "parseInt (showNat n) = n"
proof (induction n rule: showNat.induct)
  case (1 n)
  show ?case
  proof (cases "n < 10")
    case True
    then show ?thesis by (simp add: showNat.simps [of n] parseInt_def digitChar_digit)
  next
    case False
    then show ?thesis using 1
      by (simp add: showNat.simps [of n] parseInt_snoc digitChar_digit)
  qed
qed

lemma matchPort_digits:
  assumes "ds \<noteq> []" and "\<forall>c \<in> set ds. isDigit c"
  shows "matchPort (''PORT:'' @ ds) = Some ds"
  using assms by (simp add: takeWhile_eq_all_conv [THEN iffD2])

lemma trim_announcement:
  assumes "ds \<noteq> []" and "\<forall>c \<in> set ds. isDigit c"
  shows "trim (''PORT:'' @ ds) = ''PORT:'' @ ds"
proof -
  have "\<not> isSpace (last ds)" using assms by (simp add: isDigit_not_space)
  then have "dropWhile isSpace (rev (''PORT:'' @ ds)) = rev (''PORT:'' @ ds)"
    using assms(1) by (cases ds rule: rev_cases) simp_all
  then show ?thesis by (simp add: trim_def isSpace_def)
qed

lemma announcedPort_showNat: "announcedPort (''PORT:'' @ showNat n) = Some n"
proof -
  have d: "showNat n \<noteq> []" "\<forall>c \<in> set (showNat n). isDigit c"
    using showNat_digits [of n] by simp_all
  have t: "trim (''PORT:'' @ showNat n) = ''PORT:'' @ showNat n"
    using d by (rule trim_announcement)
  have m: "matchPort (''PORT:'' @ showNat n) = Some (showNat n)"
    using d by (rule matchPort_digits)
  show ?thesis unfolding announcedPort_def t m by (simp add: parseInt_showNat)
qed

lemma backend_inv_init: "backend_inv backend_init"
  by (simp add: backend_inv_def backend_init_def startupOf_def)

lemma statusOk_failed: "statusOk (failedStatus m)"
  by (simp add: statusOk_def failedStatus_def)

lemma statusOk_getStatus: "statusOk (backend_getStatus s) = isRunning s"
  by (simp add: statusOk_def backend_getStatus_def)

lemma set_update_promiseOk:
  "\<forall>q \<in> set ps. promiseOk q \<Longrightarrow> promiseOk x \<Longrightarrow> \<forall>q \<in> set (ps[p := x]). promiseOk q"
  by (metis insertE set_update_subset_insert subsetD)

lemma backend_inv_settle:
  assumes "backend_inv s" and "case r of Inl m \<Rightarrow> True | Inr st \<Rightarrow> statusOk st"
  shows "backend_inv (settleStartup p r s)"
proof -
  have "promiseOk (Fulfilled (case r of Inl m \<Rightarrow> failedStatus m | Inr st \<Rightarrow> st))"
    using assms(2) by (auto simp: promiseOk_def statusOk_failed split: sum.splits)
  then show ?thesis
    using assms(1) set_update_promiseOk [of "promises s"]
    by (simp add: backend_inv_def settleStartup_def startupOf_def)
qed

lemma backend_inv_loop:
  assumes "backend_inv s" and "startupOf (phase s) = Some p"
  shows "backend_inv (waitForHealthy_loop p pd n t0 now s)"
  using assms backend_inv_settle [of s "Inl (Some healthTimeoutMessage)" p]
  by (auto simp: waitForHealthy_loop_def) (simp add: backend_inv_def startupOf_def)

lemma backend_inv_isRunning: "backend_inv (s\<lparr>isRunning := b\<rparr>) = backend_inv s"
  by (simp add: backend_inv_def)

lemma backend_inv_start: "backend_inv s \<Longrightarrow> backend_inv (snd (backend_start sp s))"
  by (auto simp: backend_start_def startInternal_def Let_def backend_inv_def startupOf_def
        promiseOk_def statusOk_failed statusOk_getStatus nth_append less_Suc_eq
        split: option.splits spawn_result.splits startup_phase.splits)

lemma backend_inv_stop: "backend_inv s \<Longrightarrow> backend_inv (snd (backend_stop s))"
  by (auto simp: backend_stop_def Let_def backend_inv_def split: option.splits)

lemma backend_inv_close: "backend_inv s \<Longrightarrow> closeEvent h s = Some s' \<Longrightarrow> backend_inv s'"
  by (auto simp: closeEvent_def onClose_def backend_inv_def split: if_splits)

lemma backend_inv_onStdout: "backend_inv (onStdout c s) = backend_inv s"
  by (simp add: onStdout_def backend_inv_def split: option.splits)

lemma backend_inv_onError: "backend_inv (onError s) = backend_inv s"
  by (simp add: onError_def backend_inv_def)

lemma backend_inv_poll: "backend_inv s \<Longrightarrow> portPollTick now s = Some s' \<Longrightarrow> backend_inv s'"
  by (auto simp: portPollTick_def Let_def backend_inv_isRunning startupOf_def
        intro!: backend_inv_settle backend_inv_loop
        split: startup_phase.splits option.splits if_splits)

lemma backend_inv_portTimeout: "backend_inv s \<Longrightarrow> portTimeout s = Some s' \<Longrightarrow> backend_inv s'"
  by (auto simp: portTimeout_def intro!: backend_inv_settle split: startup_phase.splits)

lemma backend_inv_probe: "backend_inv s \<Longrightarrow> probeSettled r now s = Some s' \<Longrightarrow> backend_inv s'"
  by (auto simp: probeSettled_def startupOf_def statusOk_def
        intro!: backend_inv_settle backend_inv_loop
        split: startup_phase.splits probe_result.splits)
     (simp add: backend_inv_def startupOf_def)

lemma backend_inv_sleep: "backend_inv s \<Longrightarrow> sleepDone now s = Some s' \<Longrightarrow> backend_inv s'"
  by (auto simp: sleepDone_def startupOf_def intro!: backend_inv_loop split: startup_phase.splits)

lemma backend_inv_kill: "backend_inv s \<Longrightarrow> killTimer s = Some s' \<Longrightarrow> backend_inv s'"
  by (auto simp: killTimer_def Let_def backend_inv_def split: if_splits option.splits)

lemma backend_inv_step: "backend_inv s \<Longrightarrow> backend_step e s = Some s' \<Longrightarrow> backend_inv s'"
  by (cases e)
     (auto simp: backend_step_def backend_inv_start backend_inv_stop backend_inv_onStdout
        backend_inv_onError
        dest: backend_inv_close backend_inv_poll backend_inv_portTimeout backend_inv_probe
          backend_inv_sleep backend_inv_kill
        split: if_splits)

lemma backend_inv_run: "backend_inv s \<Longrightarrow> backend_run es s = Some s' \<Longrightarrow> backend_inv s'"
  by (induction es arbitrary: s) (auto split: option.splits dest: backend_inv_step)

lemma backend_reachable_inv: "backend_run es backend_init = Some s \<Longrightarrow> backend_inv s"
  using backend_inv_run backend_inv_init by blast

lemma settle_nth:
  "p < length (promises s) \<Longrightarrow>
   promises (settleStartup p r s) ! p = Fulfilled (case r of Inl m \<Rightarrow> failedStatus m | Inr st \<Rightarrow> st)"
  by (simp add: settleStartup_def)


lemma inv_phase:
  assumes "backend_inv s" and "startupOf (phase s) = Some p"
  shows "startupPromise s = Some p" and "p < length (promises s)" and "promises s ! p = Pending"
  using assms by (simp_all add: backend_inv_def)

lemma inv_no_startup: "backend_inv s \<Longrightarrow> startupPromise s = None \<Longrightarrow> phase s = NoStartup"
  by (cases "phase s") (auto simp: backend_inv_def startupOf_def)






lemma sameOutside_settle: "sameOutside s (settleStartup p r s)"
  by (simp add: sameOutside_def settleStartup_def)

lemma sameOutside_loop: "sameOutside s (waitForHealthy_loop p pd n t0 now s)"
  by (simp add: sameOutside_def waitForHealthy_loop_def settleStartup_def)

lemma sameOutside_poll: "portPollTick now s = Some s' \<Longrightarrow> sameOutside s s'"
  by (cases "phase s"; cases "port s")
     (auto simp: portPollTick_def Let_def sameOutside_def waitForHealthy_loop_def settleStartup_def
        split: if_splits)

lemma sameOutside_portTimeout: "portTimeout s = Some s' \<Longrightarrow> sameOutside s s'"
  by (cases "phase s") (auto simp: portTimeout_def sameOutside_settle)

lemma sameOutside_probe: "probeSettled r now s = Some s' \<Longrightarrow> sameOutside s s'"
  by (cases "phase s"; cases r)
     (auto simp: probeSettled_def sameOutside_settle sameOutside_loop, simp add: sameOutside_def)

lemma sameOutside_sleep: "sleepDone now s = Some s' \<Longrightarrow> sameOutside s s'"
  by (cases "phase s") (auto simp: sleepDone_def sameOutside_loop)

lemma start_stopPromises: "stopPromises (snd (backend_start sp s)) = stopPromises s"
  by (cases "startupPromise s"; cases sp)
     (simp_all add: backend_start_def startInternal_def Let_def)

lemma stopPromise_step:
  assumes "k < length (stopPromises s)" and "stopPromises s ! k = StopPending h"
    and "e \<noteq> Close h" and "backend_step e s = Some s'"
  shows "k < length (stopPromises s') \<and> stopPromises s' ! k = StopPending h"
proof (cases e)
  case (Start sp)
  with assms show ?thesis by (auto simp: backend_step_def start_stopPromises)
next
  case Stop
  with assms show ?thesis
    by (cases "process s") (auto simp: backend_step_def backend_stop_def Let_def nth_append)
next
  case (StdoutData h' chunk)
  with assms show ?thesis by (auto simp: backend_step_def onStdout_def split: if_splits option.splits)
next
  case (StderrData h' chunk)
  with assms show ?thesis by (auto simp: backend_step_def split: if_splits)
next
  case (Close h')
  with assms have "h' \<noteq> h" and "stopPromises s' =
      map (\<lambda>q. if q = StopPending h' then StopResolved else q) (stopPromises s)"
    by (auto simp: backend_step_def closeEvent_def split: if_splits)
  with assms(1,2) show ?thesis by simp
next
  case (ProcError h')
  with assms show ?thesis by (auto simp: backend_step_def onError_def split: if_splits)
next
  case (PortPollTick now)
  with assms(4) have "sameOutside s s'" by (simp add: backend_step_def sameOutside_poll)
  with assms show ?thesis by (simp add: sameOutside_def)
next
  case PortTimeout
  with assms(4) have "sameOutside s s'" by (simp add: backend_step_def sameOutside_portTimeout)
  with assms show ?thesis by (simp add: sameOutside_def)
next
  case (ProbeSettled r now)
  with assms(4) have "sameOutside s s'" by (simp add: backend_step_def sameOutside_probe)
  with assms show ?thesis by (simp add: sameOutside_def)
next
  case (SleepDone now)
  with assms(4) have "sameOutside s s'" by (simp add: backend_step_def sameOutside_sleep)
  with assms show ?thesis by (simp add: sameOutside_def)
next
  case KillTimer
  with assms show ?thesis
    by (cases "process s") (auto simp: backend_step_def killTimer_def Let_def split: if_splits)
qed

lemma stopPromise_run:
  assumes "k < length (stopPromises s)" and "stopPromises s ! k = StopPending h"
    and "\<forall>e \<in> set es. e \<noteq> Close h" and "backend_run es s = Some s'"
  shows "k < length (stopPromises s') \<and> stopPromises s' ! k = StopPending h"
  using assms
proof (induction es arbitrary: s)
  case Nil
  then show ?case by simp
next
  case (Cons e es)
  from Cons.prems obtain s1 where s1: "backend_step e s = Some s1" and r: "backend_run es s1 = Some s'"
    by (auto split: option.splits)
  have "k < length (stopPromises s1) \<and> stopPromises s1 ! k = StopPending h"
    using stopPromise_step [OF Cons.prems(1,2) _ s1] Cons.prems(3) by simp
  then show ?case using Cons.IH [OF _ _ _ r] Cons.prems(3) by simp
qed

lemma grace_step:
  assumes "noExitNoSpawn e" and "backend_step e s = Some s'"
  shows "process s' = process s \<and> killTimers s \<le> killTimers s'"
proof (cases e)
  case Stop
  with assms show ?thesis
    by (cases "process s") (auto simp: backend_step_def backend_stop_def Let_def)
next
  case (StdoutData h' chunk)
  with assms show ?thesis by (auto simp: backend_step_def onStdout_def split: if_splits option.splits)
next
  case (StderrData h' chunk)
  with assms show ?thesis by (auto simp: backend_step_def split: if_splits)
next
  case (ProcError h')
  with assms show ?thesis by (auto simp: backend_step_def onError_def split: if_splits)
next
  case (PortPollTick now)
  with assms(2) have "sameOutside s s'" by (simp add: backend_step_def sameOutside_poll)
  then show ?thesis by (simp add: sameOutside_def)
next
  case PortTimeout
  with assms(2) have "sameOutside s s'" by (simp add: backend_step_def sameOutside_portTimeout)
  then show ?thesis by (simp add: sameOutside_def)
next
  case (ProbeSettled r now)
  with assms(2) have "sameOutside s s'" by (simp add: backend_step_def sameOutside_probe)
  then show ?thesis by (simp add: sameOutside_def)
next
  case (SleepDone now)
  with assms(2) have "sameOutside s s'" by (simp add: backend_step_def sameOutside_sleep)
  then show ?thesis by (simp add: sameOutside_def)
qed (use assms in simp_all)

lemma grace_run:
  assumes "\<forall>e \<in> set es. noExitNoSpawn e" and "backend_run es s = Some s'"
  shows "process s' = process s \<and> killTimers s \<le> killTimers s'"
  using assms
proof (induction es arbitrary: s)
  case Nil
  then show ?case by simp
next
  case (Cons e es)
  from Cons.prems obtain s1 where s1: "backend_step e s = Some s1" and r: "backend_run es s1 = Some s'"
    by (auto split: option.splits)
  have "process s1 = process s \<and> killTimers s \<le> killTimers s1"
    using grace_step [OF _ s1] Cons.prems(1) by simp
  then show ?case using Cons.IH [OF _ r] Cons.prems(1) by auto
qed

lemma stop_none:
  assumes "backend_stop s = (k, s1)" and "process s = None"
  shows "stopPromises s1 ! k = StopResolved \<and> signals s1 = signals s"
  using assms by (auto simp: backend_stop_def Let_def)

lemma stop_some:
  assumes "backend_stop s = (k, s1)" and "process s = Some c"
  shows "k < length (stopPromises s1)" and "stopPromises s1 ! k = StopPending (child c)"
    and "signals s1 = signals s @ [(child c, SIGTERM)]" and "0 < killTimers s1"
    and "process s1 = Some c"
  using assms by (auto simp: backend_stop_def Let_def)

lemma stop_pending:
  assumes "backend_stop s = (k, s1)" and "process s = Some c"
    and "\<forall>e \<in> set es. e \<noteq> Close (child c)" and "backend_run es s1 = Some s2"
  shows "k < length (stopPromises s2) \<and> stopPromises s2 ! k = StopPending (child c)"
  using stopPromise_run [OF stop_some(1,2) [OF assms(1,2)] assms(3,4)] .

lemma stop_forced:
  assumes "backend_stop s = (k, s1)" and "process s = Some c"
    and "\<forall>e \<in> set es. noExitNoSpawn e" and "backend_run es s1 = Some s2"
  shows "\<exists>s3. backend_step KillTimer s2 = Some s3
           \<and> signals s3 = signals s2 @ [(child c, SIGKILL)]
           \<and> stopPromises s3 ! k = StopPending (child c)"
proof -
  have "\<forall>e \<in> set es. e \<noteq> Close (child c)" using assms(3) by auto
  then have p2: "stopPromises s2 ! k = StopPending (child c)"
    using stop_pending [OF assms(1,2) _ assms(4)] by simp
  have g: "process s2 = Some c" "0 < killTimers s2"
    using grace_run [OF assms(3,4)] stop_some(4,5) [OF assms(1,2)] by simp_all
  then show ?thesis using p2 by (simp add: backend_step_def killTimer_def Let_def)
qed

lemma stop_exit:
  assumes "backend_stop s = (k, s1)" and "process s = Some c"
    and "\<forall>e \<in> set es. e \<noteq> Close (child c)" and "backend_run es s1 = Some s2"
    and "backend_step (Close (child c)) s2 = Some s3"
  shows "stopPromises s3 ! k = StopResolved \<and> \<not> isRunning s3 \<and> port s3 = None \<and> process s3 = None
     \<and> (\<forall>s4. backend_step KillTimer s3 = Some s4 \<longrightarrow> signals s4 = signals s3)"
proof -
  have "k < length (stopPromises s2) \<and> stopPromises s2 ! k = StopPending (child c)"
    using stop_pending [OF assms(1-4)] .
  moreover have "s3 = (onClose s2)
                  \<lparr>children := removeAll (child c) (children s2),
                   stopPromises :=
                     map (\<lambda>q. if q = StopPending (child c) then StopResolved else q) (stopPromises s2)\<rparr>"
    using assms(5) by (simp add: backend_step_def closeEvent_def split: if_splits)
  ultimately have a: "stopPromises s3 ! k = StopResolved \<and> \<not> isRunning s3 \<and> port s3 = None
      \<and> process s3 = None"
    by (simp add: onClose_def)
  then have "\<forall>s4. backend_step KillTimer s3 = Some s4 \<longrightarrow> signals s4 = signals s3"
    by (auto simp: backend_step_def killTimer_def Let_def split: if_splits)
  with a show ?thesis by simp
qed

lemma backend_run_snoc:
  "backend_run (es @ [e]) s =
     (case backend_run es s of None \<Rightarrow> None | Some s' \<Rightarrow> backend_step e s')"
  by (induction es arbitrary: s) (auto split: option.splits)

lemma start_port_children:
  "port (snd (backend_start sp s)) = port s \<and> set (children s) \<subseteq> set (children (snd (backend_start sp s)))"
  by (cases "startupPromise s"; cases sp)
     (auto simp: backend_start_def startInternal_def Let_def)

lemma stop_port_children:
  "port (snd (backend_stop s)) = port s \<and> children (snd (backend_stop s)) = children s"
  by (cases "process s") (simp_all add: backend_stop_def Let_def)

lemma kill_port_children:
  "killTimer s = Some s' \<Longrightarrow> port s' = port s \<and> children s' = children s"
  by (cases "process s") (auto simp: killTimer_def Let_def split: if_splits)

lemma port_step:
  assumes "backend_step e s = Some s'" and "port s' \<noteq> None"
  shows "(\<exists>h chunk. e = StdoutData h chunk \<and> announcedPort chunk = port s' \<and> h \<in> set (children s'))
       \<or> (port s' = port s \<and> \<not> isExit e \<and> set (children s) \<subseteq> set (children s'))"
proof (cases e)
  case (Start sp)
  with assms show ?thesis using start_port_children [of sp s] by (auto simp: backend_step_def)
next
  case Stop
  with assms show ?thesis using stop_port_children [of s] by (auto simp: backend_step_def)
next
  case (StdoutData h chunk)
  with assms show ?thesis
    by (cases "announcedPort chunk") (auto simp: backend_step_def onStdout_def split: if_splits)
next
  case (StderrData h chunk)
  with assms show ?thesis by (auto simp: backend_step_def split: if_splits)
next
  case (Close h)
  with assms show ?thesis
    by (auto simp: backend_step_def closeEvent_def onClose_def split: if_splits)
next
  case (ProcError h)
  with assms show ?thesis by (auto simp: backend_step_def onError_def split: if_splits)
next
  case (PortPollTick now)
  with assms(1) have "sameOutside s s'" by (simp add: backend_step_def sameOutside_poll)
  then show ?thesis using PortPollTick by (simp add: sameOutside_def)
next
  case PortTimeout
  with assms(1) have "sameOutside s s'" by (simp add: backend_step_def sameOutside_portTimeout)
  then show ?thesis using PortTimeout by (simp add: sameOutside_def)
next
  case (ProbeSettled r now)
  with assms(1) have "sameOutside s s'" by (simp add: backend_step_def sameOutside_probe)
  then show ?thesis using ProbeSettled by (simp add: sameOutside_def)
next
  case (SleepDone now)
  with assms(1) have "sameOutside s s'" by (simp add: backend_step_def sameOutside_sleep)
  then show ?thesis using SleepDone by (simp add: sameOutside_def)
next
  case KillTimer
  with assms show ?thesis using kill_port_children [of s s'] by (auto simp: backend_step_def)
qed

lemma announce_run:
  assumes "port s0 = None" and "backend_run es s0 = Some s" and "port s \<noteq> None"
  shows "\<exists>es1 h chunk es2. es = es1 @ StdoutData h chunk # es2 \<and> announcedPort chunk = port s
           \<and> (\<forall>e \<in> set es2. \<not> isExit e) \<and> h \<in> set (children s)"
  using assms(2,3)
proof (induction es arbitrary: s rule: rev_induct)
  case Nil
  with assms(1) show ?case by simp
next
  case (snoc e es)
  from snoc.prems(1) obtain s1 where r: "backend_run es s0 = Some s1" and st: "backend_step e s1 = Some s"
    by (auto simp: backend_run_snoc split: option.splits)
  from port_step [OF st snoc.prems(2)] show ?case
  proof
    assume "\<exists>h chunk. e = StdoutData h chunk \<and> announcedPort chunk = port s \<and> h \<in> set (children s)"
    then obtain h chunk where "e = StdoutData h chunk" "announcedPort chunk = port s" "h \<in> set (children s)"
      by blast
    then have "es @ [e] = es @ StdoutData h chunk # [] \<and> announcedPort chunk = port s
           \<and> (\<forall>e \<in> set []. \<not> isExit e) \<and> h \<in> set (children s)" by simp
    then show ?thesis by blast
  next
    assume a: "port s = port s1 \<and> \<not> isExit e \<and> set (children s1) \<subseteq> set (children s)"
    then have "port s1 \<noteq> None" using snoc.prems(2) by simp
    from snoc.IH [OF r this] obtain es1 h chunk es2 where
      ih: "es = es1 @ StdoutData h chunk # es2" "announcedPort chunk = port s1"
        "\<forall>e \<in> set es2. \<not> isExit e" "h \<in> set (children s1)" by blast
    then have "es @ [e] = es1 @ StdoutData h chunk # (es2 @ [e]) \<and> announcedPort chunk = port s
           \<and> (\<forall>e' \<in> set (es2 @ [e]). \<not> isExit e') \<and> h \<in> set (children s)"
      using a by auto
    then show ?thesis by blast
  qed
qed

lemma latestAnnounced_snoc:
  "latestAnnounced (chunks @ [c]) =
     (case announcedPort c of None \<Rightarrow> latestAnnounced chunks | Some n \<Rightarrow> Some n)"
  by (cases "announcedPort c")
     (simp_all add: latestAnnounced_def Let_def)

lemma stdout_run:
  assumes "h \<in> set (children s)"
  shows "backend_run (map (StdoutData h) chunks) s =
           Some (s\<lparr>port := (case latestAnnounced chunks of None \<Rightarrow> port s | Some n \<Rightarrow> Some n)\<rparr>)"
proof (induction chunks rule: rev_induct)
  case Nil
  then show ?case by (simp add: latestAnnounced_def)
next
  case (snoc c chunks)
  then show ?case using assms
    by (cases "announcedPort c")
       (simp_all add: backend_run_snoc latestAnnounced_snoc backend_step_def onStdout_def)
qed

lemmas port_eval = announcedPort_def trim_def isSpace_def isDigit_def parseInt_def digitValue_def

lemma announced_examples:
  "announcedPort ''noise'' = None"
  "announcedPort ''more noise'' = None"
  "announcedPort ''PORT:54321'' = Some 54321"
  "announcedPort ''PORT:1111'' = Some 1111"
  "announcedPort ''PORT:5000'' = Some 5000"
  "announcedPort ''PORT:6000'' = Some 6000"
  by (simp_all add: port_eval)

lemmas backend_eval =
  backend_step_def backend_start_def startInternal_def backend_stop_def killTimer_def
  closeEvent_def onClose_def onError_def onStdout_def portPollTick_def portTimeout_def
  probeSettled_def sleepDone_def waitForHealthy_loop_def settleStartup_def failedStatus_def
  backend_getStatus_def orNull_def backend_init_def BACKEND_STARTUP_TIMEOUT_MS_def
  portTimeoutMessage_def healthTimeoutMessage_def portUnavailableMessage_def
  announced_examples Let_def




lemma running_state:
  "backend_run [Start (Spawned (Some 4242)), StdoutData 0 ''PORT:54321'', PortPollTick 200,
                ProbeSettled ProbeHealthy 900] backend_init =
     Some \<lparr>process = Some \<lparr>child = 0, pid = Some 4242\<rparr>, port = Some 54321, isRunning = True,
            startupPromise = None, phase = NoStartup,
            promises = [Fulfilled \<lparr>st_isRunning = True, st_port = Some 54321,
                                    st_pid = Some 4242, st_error = None\<rparr>],
            children = [0], spawned = 1, probes = 1, signals = [], stopPromises = [],
            killTimers = 0\<rparr>"
  by (simp add: backend_eval)

lemma kill_process: "killTimer s = Some s' \<Longrightarrow> process s' = process s"
  by (cases "process s") (auto simp: killTimer_def Let_def split: if_splits)

lemma tracked_step:
  assumes "e = KillTimer \<or> noExitNoSpawn e" and "backend_step e s = Some s'"
  shows "process s' = process s"
proof (cases "e = KillTimer")
  case True
  with assms(2) show ?thesis by (simp add: backend_step_def kill_process)
next
  case False
  with assms show ?thesis using grace_step [of e s s'] by simp
qed

lemma tracked_run:
  assumes "\<forall>e \<in> set es. e = KillTimer \<or> noExitNoSpawn e" and "backend_run es s = Some s'"
  shows "process s' = process s"
  using assms
proof (induction es arbitrary: s)
  case Nil
  then show ?case by simp
next
  case (Cons e es)
  from Cons.prems obtain s1 where s1: "backend_step e s = Some s1" and r: "backend_run es s1 = Some s'"
    by (auto split: option.splits)
  have "process s1 = process s" using tracked_step [OF _ s1] Cons.prems(1) by simp
  then show ?case using Cons.IH [OF _ r] Cons.prems(1) by simp
qed

lemma stop_forced_any_timer:
  assumes "backend_stop s = (k, s1)" and "process s = Some c"
    and "\<forall>e \<in> set es. e = KillTimer \<or> noExitNoSpawn e" and "backend_run es s1 = Some s2"
    and "backend_step KillTimer s2 = Some s3"
  shows "signals s3 = signals s2 @ [(child c, SIGKILL)]"
proof -
  have "process s2 = Some c"
    using tracked_run [OF assms(3,4)] stop_some(5) [OF assms(1,2)] by simp
  then show ?thesis using assms(5)
    by (auto simp: backend_step_def killTimer_def Let_def split: if_splits)
qed

subsection \<open>The claims about the backend manager\<close>

paragraph \<open>Claim C2\<close>

text \<open>
  Claim C2, as amended. Every chunk of stdout of a child that has not closed in which
  \<^verbatim>\<open>PORT:\<close> with digits occurs sets the port to the number of the first occurrence in
  that chunk. So after a sequence of chunks the port is the one announced by the last
  chunk that has a match, and it is what it was when none has; nothing else changes.
  A chunk without the pattern changes nothing, and the chunk \<^verbatim>\<open>PORT:\<close> followed by the
  decimal digits of a number sets the port to that number.
\<close>

theorem port_follows_latest_announcement:
  assumes "h \<in> set (children s)"
  shows "backend_run (map (StdoutData h) chunks) s =
           Some (s\<lparr>port := (case latestAnnounced chunks of None \<Rightarrow> port s | Some n \<Rightarrow> Some n)\<rparr>)
     \<and> (announcedPort chunk = None \<longrightarrow> backend_step (StdoutData h chunk) s = Some s)
     \<and> (\<forall>n. announcedPort chunk = Some n \<longrightarrow>
           backend_step (StdoutData h chunk) s = Some (s\<lparr>port := Some n\<rparr>))
     \<and> backend_step (StdoutData h (''PORT:'' @ showNat m)) s = Some (s\<lparr>port := Some m\<rparr>)"
  using assms stdout_run [OF assms, of chunks] announcedPort_showNat [of m]
  by (simp add: backend_step_def onStdout_def del: append.simps)

text \<open>
  The theorem of claim C2 at the chunks \<^verbatim>\<open>noise\<close>, \<^verbatim>\<open>PORT:54321\<close>, \<^verbatim>\<open>more noise\<close>
  of the child of a start under way: the port is 54321.
\<close>

theorem port_follows_latest_announcement_witness:
  "backend_run (map (StdoutData 0) [''noise'', ''PORT:54321'', ''more noise''])
     \<lparr>process = Some \<lparr>child = 0, pid = Some 4242\<rparr>, port = None, isRunning = False,
          startupPromise = Some 0, phase = AwaitPort 0 (Some 4242), promises = [Pending],
          children = [0], spawned = 1, probes = 0, signals = [], stopPromises = [],
          killTimers = 0\<rparr> =
   Some \<lparr>process = Some \<lparr>child = 0, pid = Some 4242\<rparr>, port = Some 54321, isRunning = False,
          startupPromise = Some 0, phase = AwaitPort 0 (Some 4242), promises = [Pending],
          children = [0], spawned = 1, probes = 0, signals = [], stopPromises = [],
          killTimers = 0\<rparr>"
proof -
  let ?s = "\<lparr>process = Some \<lparr>child = 0, pid = Some 4242\<rparr>, port = None, isRunning = False,
          startupPromise = Some 0, phase = AwaitPort 0 (Some 4242), promises = [Pending],
          children = [0], spawned = 1, probes = 0, signals = [], stopPromises = [],
          killTimers = 0\<rparr>"
  have h: "0 \<in> set (children ?s)" by simp
  have l: "latestAnnounced [''noise'', ''PORT:54321'', ''more noise''] = Some 54321"
    by (simp add: latestAnnounced_def announced_examples)
  from port_follows_latest_announcement [OF h, of "[''noise'', ''PORT:54321'', ''more noise'']" "''noise''" 0] l
  show ?thesis by simp
qed

text \<open>
  Claim C2 as stated says that a later \<^verbatim>\<open>PORT:\<close> line is ignored and the port stays
  the first announced value. After \<^verbatim>\<open>PORT:54321\<close> and then \<^verbatim>\<open>PORT:1111\<close> the port
  is 1111.
\<close>

theorem later_announcement_overrides_counterexample:
  "announcedPort ''PORT:54321'' = Some 54321
   \<and> map_option port
        (backend_run [Start (Spawned (Some 4242)), StdoutData 0 ''PORT:54321'',
                      StdoutData 0 ''PORT:1111''] backend_init) = Some (Some 1111)"
  by (simp add: backend_eval)

paragraph \<open>Claim C3\<close>

text \<open>
  What holds: a call of \<^verbatim>\<open>start()\<close> while a promise is stored in \<^verbatim>\<open>startupPromise\<close>
  returns that promise and changes nothing, so it spawns nothing; a call on a running
  backend with no promise stored spawns nothing and returns a new promise that is
  already fulfilled with the current status, and stores it.
\<close>

lemma start_in_flight:
  "startupPromise s = Some p \<Longrightarrow> backend_start sp s = (p, s)"
  by (simp add: backend_start_def)

lemma start_when_running:
  assumes "isRunning s" and "startupPromise s = None"
  shows "fst (backend_start sp s) = length (promises s)"
    and "promises (snd (backend_start sp s)) = promises s @ [Fulfilled (backend_getStatus s)]"
    and "spawned (snd (backend_start sp s)) = spawned s"
    and "startupPromise (snd (backend_start sp s)) = Some (length (promises s))"
  using assms by (simp_all add: backend_start_def startInternal_def Let_def)

text \<open>
  Claim C3, evaluated where the code departs from it. The backend is started and runs
  on port 5000. A call of \<^verbatim>\<open>start()\<close> returns the current status through a new
  promise, which \<^verbatim>\<open>start()\<close> stores in \<^verbatim>\<open>startupPromise\<close>; \<^verbatim>\<open>_startInternal\<close> has
  returned before its \<^verbatim>\<open>try\<close> statement, so no \<^verbatim>\<open>finally\<close> block clears it. The child
  then announces \<^verbatim>\<open>PORT:6000\<close>. The next call of \<^verbatim>\<open>start()\<close> changes nothing and
  returns the stored promise (promise 1), which is fulfilled with port 5000, while
  \<^verbatim>\<open>getStatus()\<close> reports port 6000.
\<close>

theorem start_returns_stale_status:
  "backend_run [Start (Spawned (Some 4242)), StdoutData 0 ''PORT:5000'', PortPollTick 200,
                ProbeSettled ProbeHealthy 900, Start (Spawned (Some 4343)),
                StdoutData 0 ''PORT:6000''] backend_init =
     Some \<lparr>process = Some \<lparr>child = 0, pid = Some 4242\<rparr>, port = Some 6000, isRunning = True,
            startupPromise = Some 1, phase = NoStartup,
            promises = [Fulfilled \<lparr>st_isRunning = True, st_port = Some 5000, st_pid = Some 4242,
                                    st_error = None\<rparr>,
                        Fulfilled \<lparr>st_isRunning = True, st_port = Some 5000, st_pid = Some 4242,
                                    st_error = None\<rparr>],
            children = [0], spawned = 1, probes = 1, signals = [], stopPromises = [],
            killTimers = 0\<rparr>
   \<and> backend_start (Spawned (Some 4444))
        \<lparr>process = Some \<lparr>child = 0, pid = Some 4242\<rparr>, port = Some 6000, isRunning = True,
            startupPromise = Some 1, phase = NoStartup,
            promises = [Fulfilled \<lparr>st_isRunning = True, st_port = Some 5000, st_pid = Some 4242,
                                    st_error = None\<rparr>,
                        Fulfilled \<lparr>st_isRunning = True, st_port = Some 5000, st_pid = Some 4242,
                                    st_error = None\<rparr>],
            children = [0], spawned = 1, probes = 1, signals = [], stopPromises = [],
            killTimers = 0\<rparr> =
       (1, \<lparr>process = Some \<lparr>child = 0, pid = Some 4242\<rparr>, port = Some 6000, isRunning = True,
            startupPromise = Some 1, phase = NoStartup,
            promises = [Fulfilled \<lparr>st_isRunning = True, st_port = Some 5000, st_pid = Some 4242,
                                    st_error = None\<rparr>,
                        Fulfilled \<lparr>st_isRunning = True, st_port = Some 5000, st_pid = Some 4242,
                                    st_error = None\<rparr>],
            children = [0], spawned = 1, probes = 1, signals = [], stopPromises = [],
            killTimers = 0\<rparr>)
   \<and> backend_getStatus
        \<lparr>process = Some \<lparr>child = 0, pid = Some 4242\<rparr>, port = Some 6000, isRunning = True,
            startupPromise = Some 1, phase = NoStartup,
            promises = [Fulfilled \<lparr>st_isRunning = True, st_port = Some 5000, st_pid = Some 4242,
                                    st_error = None\<rparr>,
                        Fulfilled \<lparr>st_isRunning = True, st_port = Some 5000, st_pid = Some 4242,
                                    st_error = None\<rparr>],
            children = [0], spawned = 1, probes = 1, signals = [], stopPromises = [],
            killTimers = 0\<rparr> =
       \<lparr>st_isRunning = True, st_port = Some 6000, st_pid = Some 4242, st_error = None\<rparr>"
  by (simp add: backend_eval)

text \<open>
  The stored promise outlives the child: after the \<^verbatim>\<open>close\<close> event a call of
  \<^verbatim>\<open>start()\<close> spawns nothing and returns the promise fulfilled with the running
  status, while \<^verbatim>\<open>getStatus()\<close> reports that nothing runs.
\<close>

lemma start_after_exit_returns_stored_promise:
  "map_option (\<lambda>s. (fst (backend_start (Spawned (Some 4444)) s),
                     promises (snd (backend_start (Spawned (Some 4444)) s)) ! 1,
                     spawned (snd (backend_start (Spawned (Some 4444)) s)),
                     backend_getStatus s))
     (backend_run [Start (Spawned (Some 4242)), StdoutData 0 ''PORT:5000'', PortPollTick 200,
                   ProbeSettled ProbeHealthy 900, Start (Spawned (Some 4343)), Close 0]
        backend_init) =
   Some (1,
         Fulfilled \<lparr>st_isRunning = True, st_port = Some 5000, st_pid = Some 4242,
                     st_error = None\<rparr>,
         1,
         \<lparr>st_isRunning = False, st_port = None, st_pid = None, st_error = None\<rparr>)"
  by (simp add: backend_eval)

paragraph \<open>Claim C4\<close>




paragraph \<open>Claim C5\<close>

text \<open>
  Claim C5, as amended. In every state, the \<^verbatim>\<open>close\<close> event of a child clears
  \<^verbatim>\<open>isRunning\<close>, \<^verbatim>\<open>port\<close> and \<^verbatim>\<open>process\<close>, so \<^verbatim>\<open>getStatus()\<close> right after it reports
  \<open>isRunning = False\<close>, \<open>port = None\<close> and no pid. In every state the manager can
  reach, a port that \<^verbatim>\<open>getStatus()\<close> reports was announced on stdout by a child that has
  not closed, and no child has closed since that announcement.
\<close>

theorem exit_clears_port:
  "(\<forall>h s s'. backend_step (Close h) s = Some s' \<longrightarrow>
       backend_getStatus s' =
         \<lparr>st_isRunning = False, st_port = None, st_pid = None, st_error = None\<rparr>)
   \<and> (\<forall>es s. backend_run es backend_init = Some s \<and> st_port (backend_getStatus s) \<noteq> None \<longrightarrow>
        (\<exists>es1 h chunk es2. es = es1 @ StdoutData h chunk # es2
            \<and> announcedPort chunk = st_port (backend_getStatus s)
            \<and> (\<forall>e \<in> set es2. \<not> isExit e) \<and> h \<in> set (children s)))"
proof (intro conjI allI impI)
  fix h s s' assume "backend_step (Close h) s = Some s'"
  then show "backend_getStatus s' =
         \<lparr>st_isRunning = False, st_port = None, st_pid = None, st_error = None\<rparr>"
    by (auto simp: backend_step_def closeEvent_def onClose_def backend_getStatus_def split: if_splits)
next
  fix es s assume a: "backend_run es backend_init = Some s \<and> st_port (backend_getStatus s) \<noteq> None"
  have p: "st_port (backend_getStatus s) = port s" by (simp add: backend_getStatus_def)
  have "port backend_init = None" by (simp add: backend_init_def)
  from announce_run [OF this, of es s] a p
  show "\<exists>es1 h chunk es2. es = es1 @ StdoutData h chunk # es2
            \<and> announcedPort chunk = st_port (backend_getStatus s)
            \<and> (\<forall>e \<in> set es2. \<not> isExit e) \<and> h \<in> set (children s)"
    by simp
qed

text \<open>
  The theorem of claim C5 at the \<^verbatim>\<open>close\<close> event of the child of a running backend.
\<close>

theorem exit_clears_port_witness:
  "backend_step (Close 0)
     \<lparr>process = Some \<lparr>child = 0, pid = Some 4242\<rparr>, port = Some 54321, isRunning = True,
            startupPromise = None, phase = NoStartup,
            promises = [Fulfilled \<lparr>st_isRunning = True, st_port = Some 54321,
                                    st_pid = Some 4242, st_error = None\<rparr>],
            children = [0], spawned = 1, probes = 1, signals = [], stopPromises = [],
            killTimers = 0\<rparr> =
   Some \<lparr>process = None, port = None, isRunning = False,
            startupPromise = None, phase = NoStartup,
            promises = [Fulfilled \<lparr>st_isRunning = True, st_port = Some 54321,
                                    st_pid = Some 4242, st_error = None\<rparr>],
            children = [], spawned = 1, probes = 1, signals = [], stopPromises = [],
            killTimers = 0\<rparr>
   \<and> backend_getStatus
        \<lparr>process = None, port = None, isRunning = False,
            startupPromise = None, phase = NoStartup,
            promises = [Fulfilled \<lparr>st_isRunning = True, st_port = Some 54321,
                                    st_pid = Some 4242, st_error = None\<rparr>],
            children = [], spawned = 1, probes = 1, signals = [], stopPromises = [],
            killTimers = 0\<rparr> =
       \<lparr>st_isRunning = False, st_port = None, st_pid = None, st_error = None\<rparr>"
proof -
  let ?s = "\<lparr>process = Some \<lparr>child = 0, pid = Some 4242\<rparr>, port = Some 54321, isRunning = True,
            startupPromise = None, phase = NoStartup,
            promises = [Fulfilled \<lparr>st_isRunning = True, st_port = Some 54321,
                                    st_pid = Some 4242, st_error = None\<rparr>],
            children = [0], spawned = 1, probes = 1, signals = [], stopPromises = [],
            killTimers = 0\<rparr>"
  let ?s' = "\<lparr>process = None, port = None, isRunning = False,
            startupPromise = None, phase = NoStartup,
            promises = [Fulfilled \<lparr>st_isRunning = True, st_port = Some 54321,
                                    st_pid = Some 4242, st_error = None\<rparr>],
            children = [], spawned = 1, probes = 1, signals = [], stopPromises = [],
            killTimers = 0\<rparr>"
  have st: "backend_step (Close 0) ?s = Some ?s'" by (simp add: backend_eval)
  from exit_clears_port have
    "backend_step (Close 0) ?s = Some ?s' \<longrightarrow>
       backend_getStatus ?s' = \<lparr>st_isRunning = False, st_port = None, st_pid = None, st_error = None\<rparr>"
    by blast
  with st show ?thesis by simp
qed

text \<open>
  Claim C5 as stated says that a port is reported only while a process is tracked as
  running. When the child announces its port after the startup timeout,
  \<^verbatim>\<open>getStatus()\<close> reports the port with \<open>isRunning = False\<close>. When the child of a
  first start closes after a second \<^verbatim>\<open>start()\<close> has spawned another, \<^verbatim>\<open>process\<close> is
  cleared, and the port the second child announces is then reported with
  \<open>isRunning = False\<close> and no pid.
\<close>

theorem port_without_running_counterexample:
  "map_option backend_getStatus
     (backend_run [Start (Spawned (Some 4242)), PortTimeout, StdoutData 0 ''PORT:54321'']
        backend_init) =
     Some \<lparr>st_isRunning = False, st_port = Some 54321, st_pid = Some 4242, st_error = None\<rparr>
   \<and> map_option backend_getStatus
     (backend_run [Start (Spawned (Some 4242)), PortTimeout, Start (Spawned (Some 4243)),
                   Close 0, StdoutData 1 ''PORT:5000''] backend_init) =
     Some \<lparr>st_isRunning = False, st_port = Some 5000, st_pid = None, st_error = None\<rparr>"
  by (simp add: backend_eval)

paragraph \<open>Claim C8\<close>

text \<open>
  Claim C8, as amended. \<^verbatim>\<open>stop()\<close> with no child stored resolves at once and sends no signal.
  With a child stored it sends SIGTERM to it, and its promise is pending. The promise
  stays pending under any events other than the \<^verbatim>\<open>close\<close> event of that child. If no
  child closes, \<^verbatim>\<open>start()\<close> is not called and no earlier timer fires, the 5 s timer can
  fire and it sends SIGKILL to that child, the promise still pending; and whatever
  timers have fired, as long as no child closes and \<^verbatim>\<open>start()\<close> is not called, a 5 s
  timer that fires sends SIGKILL to that child. The \<^verbatim>\<open>close\<close>
  event of that child resolves the promise and leaves \<open>isRunning = False\<close>,
  \<open>port = None\<close> and \<open>process = None\<close>; a timer that fires right after it
  sends no signal.
\<close>

theorem stop_graceful_then_forced:
  assumes "backend_stop s = (k, s1)"
  shows "(process s = None \<longrightarrow> stopPromises s1 ! k = StopResolved \<and> signals s1 = signals s)
     \<and> (\<forall>c. process s = Some c \<longrightarrow>
          signals s1 = signals s @ [(child c, SIGTERM)]
          \<and> stopPromises s1 ! k = StopPending (child c)
          \<and> (\<forall>es s2. (\<forall>e \<in> set es. e \<noteq> Close (child c)) \<and> backend_run es s1 = Some s2 \<longrightarrow>
                stopPromises s2 ! k = StopPending (child c))
          \<and> (\<forall>es s2. (\<forall>e \<in> set es. noExitNoSpawn e) \<and> backend_run es s1 = Some s2 \<longrightarrow>
                (\<exists>s3. backend_step KillTimer s2 = Some s3
                   \<and> signals s3 = signals s2 @ [(child c, SIGKILL)]
                   \<and> stopPromises s3 ! k = StopPending (child c)))
          \<and> (\<forall>es s2 s3. (\<forall>e \<in> set es. e = KillTimer \<or> noExitNoSpawn e)
                \<and> backend_run es s1 = Some s2 \<and> backend_step KillTimer s2 = Some s3 \<longrightarrow>
                signals s3 = signals s2 @ [(child c, SIGKILL)])
          \<and> (\<forall>es s2 s3. (\<forall>e \<in> set es. e \<noteq> Close (child c)) \<and> backend_run es s1 = Some s2
                \<and> backend_step (Close (child c)) s2 = Some s3 \<longrightarrow>
                stopPromises s3 ! k = StopResolved
                \<and> \<not> isRunning s3 \<and> port s3 = None \<and> process s3 = None
                \<and> (\<forall>s4. backend_step KillTimer s3 = Some s4 \<longrightarrow> signals s4 = signals s3)))"
proof (intro conjI allI impI)
  assume "process s = None"
  then show "stopPromises s1 ! k = StopResolved" "signals s1 = signals s"
    using stop_none [OF assms] by simp_all
next
  fix c assume c: "process s = Some c"
  show "signals s1 = signals s @ [(child c, SIGTERM)]" using stop_some(3) [OF assms c] .
  show "stopPromises s1 ! k = StopPending (child c)" using stop_some(2) [OF assms c] .
  show "stopPromises s2 ! k = StopPending (child c)"
    if "(\<forall>e \<in> set es. e \<noteq> Close (child c)) \<and> backend_run es s1 = Some s2" for es s2
    using stop_pending [OF assms c, of es s2] that by simp
  show "\<exists>s3. backend_step KillTimer s2 = Some s3
                   \<and> signals s3 = signals s2 @ [(child c, SIGKILL)]
                   \<and> stopPromises s3 ! k = StopPending (child c)"
    if "(\<forall>e \<in> set es. noExitNoSpawn e) \<and> backend_run es s1 = Some s2" for es s2
    using stop_forced [OF assms c, of es s2] that by simp
  show "signals s3 = signals s2 @ [(child c, SIGKILL)]"
    if "(\<forall>e \<in> set es. e = KillTimer \<or> noExitNoSpawn e)
                \<and> backend_run es s1 = Some s2 \<and> backend_step KillTimer s2 = Some s3" for es s2 s3
    using stop_forced_any_timer [OF assms c, of es s2 s3] that by simp
  show "stopPromises s3 ! k = StopResolved" "\<not> isRunning s3" "port s3 = None" "process s3 = None"
    if "(\<forall>e \<in> set es. e \<noteq> Close (child c)) \<and> backend_run es s1 = Some s2
                \<and> backend_step (Close (child c)) s2 = Some s3" for es s2 s3
    using stop_exit [OF assms c, of es s2 s3] that by simp_all
  show "signals s4 = signals s3"
    if "(\<forall>e \<in> set es. e \<noteq> Close (child c)) \<and> backend_run es s1 = Some s2
                \<and> backend_step (Close (child c)) s2 = Some s3"
      and "backend_step KillTimer s3 = Some s4" for es s2 s3 s4
    using stop_exit [OF assms c, of es s2 s3] that by simp
qed

text \<open>
  The theorem of claim C8 at a running backend: SIGTERM, then the timer and SIGKILL,
  then the \<^verbatim>\<open>close\<close> event.
\<close>

theorem stop_graceful_then_forced_witness:
  "backend_stop
     \<lparr>process = Some \<lparr>child = 0, pid = Some 4242\<rparr>, port = Some 54321, isRunning = True,
      startupPromise = None, phase = NoStartup, promises = [], children = [0], spawned = 1,
      probes = 1, signals = [], stopPromises = [], killTimers = 0\<rparr> =
     (0, \<lparr>process = Some \<lparr>child = 0, pid = Some 4242\<rparr>, port = Some 54321, isRunning = True,
          startupPromise = None, phase = NoStartup, promises = [], children = [0], spawned = 1,
          probes = 1, signals = [(0, SIGTERM)], stopPromises = [StopPending 0], killTimers = 1\<rparr>)
   \<and> backend_run [KillTimer]
        \<lparr>process = Some \<lparr>child = 0, pid = Some 4242\<rparr>, port = Some 54321, isRunning = True,
          startupPromise = None, phase = NoStartup, promises = [], children = [0], spawned = 1,
          probes = 1, signals = [(0, SIGTERM)], stopPromises = [StopPending 0], killTimers = 1\<rparr> =
       Some \<lparr>process = Some \<lparr>child = 0, pid = Some 4242\<rparr>, port = Some 54321, isRunning = True,
          startupPromise = None, phase = NoStartup, promises = [], children = [0], spawned = 1,
          probes = 1, signals = [(0, SIGTERM), (0, SIGKILL)], stopPromises = [StopPending 0],
          killTimers = 0\<rparr>
   \<and> backend_step (Close 0)
        \<lparr>process = Some \<lparr>child = 0, pid = Some 4242\<rparr>, port = Some 54321, isRunning = True,
          startupPromise = None, phase = NoStartup, promises = [], children = [0], spawned = 1,
          probes = 1, signals = [(0, SIGTERM), (0, SIGKILL)], stopPromises = [StopPending 0],
          killTimers = 0\<rparr> =
       Some \<lparr>process = None, port = None, isRunning = False,
          startupPromise = None, phase = NoStartup, promises = [], children = [], spawned = 1,
          probes = 1, signals = [(0, SIGTERM), (0, SIGKILL)], stopPromises = [StopResolved],
          killTimers = 0\<rparr>
   \<and> stopPromises
        \<lparr>process = None, port = None, isRunning = False,
          startupPromise = None, phase = NoStartup, promises = [], children = [], spawned = 1,
          probes = 1, signals = [(0, SIGTERM), (0, SIGKILL)], stopPromises = [StopResolved],
          killTimers = 0\<rparr> ! 0 = StopResolved"
proof -
  let ?s = "\<lparr>process = Some \<lparr>child = 0, pid = Some 4242\<rparr>, port = Some 54321, isRunning = True,
      startupPromise = None, phase = NoStartup, promises = [], children = [0], spawned = 1,
      probes = 1, signals = [], stopPromises = [], killTimers = 0\<rparr>"
  let ?s1 = "\<lparr>process = Some \<lparr>child = 0, pid = Some 4242\<rparr>, port = Some 54321, isRunning = True,
          startupPromise = None, phase = NoStartup, promises = [], children = [0], spawned = 1,
          probes = 1, signals = [(0, SIGTERM)], stopPromises = [StopPending 0], killTimers = 1\<rparr>"
  let ?s2 = "\<lparr>process = Some \<lparr>child = 0, pid = Some 4242\<rparr>, port = Some 54321, isRunning = True,
          startupPromise = None, phase = NoStartup, promises = [], children = [0], spawned = 1,
          probes = 1, signals = [(0, SIGTERM), (0, SIGKILL)], stopPromises = [StopPending 0],
          killTimers = 0\<rparr>"
  let ?s3 = "\<lparr>process = None, port = None, isRunning = False,
          startupPromise = None, phase = NoStartup, promises = [], children = [], spawned = 1,
          probes = 1, signals = [(0, SIGTERM), (0, SIGKILL)], stopPromises = [StopResolved],
          killTimers = 0\<rparr>"
  have stop: "backend_stop ?s = (0, ?s1)" by (simp add: backend_eval)
  have kill: "backend_run [KillTimer] ?s1 = Some ?s2" by (simp add: backend_eval)
  have close: "backend_step (Close 0) ?s2 = Some ?s3" by (simp add: backend_eval)
  have c: "process ?s = Some \<lparr>child = 0, pid = Some 4242\<rparr>" by simp
  have q: "\<forall>e \<in> set [KillTimer]. e \<noteq> Close (child \<lparr>child = 0, pid = Some 4242\<rparr>)" by simp
  have pre: "(\<forall>e \<in> set [KillTimer]. e \<noteq> Close (child \<lparr>child = 0, pid = Some 4242\<rparr>))
          \<and> backend_run [KillTimer] ?s1 = Some ?s2
          \<and> backend_step (Close (child \<lparr>child = 0, pid = Some 4242\<rparr>)) ?s2 = Some ?s3"
    using q kill close by simp
  note all = stop_graceful_then_forced [OF stop, THEN conjunct2, THEN spec, THEN mp, OF c]
  note exit = all [THEN conjunct2, THEN conjunct2, THEN conjunct2, THEN conjunct2, THEN conjunct2,
    THEN spec, THEN spec, THEN spec, THEN mp, OF pre]
  from exit have "stopPromises ?s3 ! 0 = StopResolved" by (rule conjunct1)
  with stop kill close show ?thesis by (intro conjI)
qed

text \<open>
  Claim C8 as stated asks for SIGKILL whenever the process has not exited, and for
  cleared state whenever \<^verbatim>\<open>stop()\<close> completes. The timer callback and the \<^verbatim>\<open>close\<close>
  listeners act on \<^verbatim>\<open>this.process\<close> as it is when they run. When the child of an earlier
  start closes during the grace period, \<^verbatim>\<open>process\<close> is cleared: the timer sends nothing,
  the child stopped has SIGTERM only and has not closed, and the promise is pending. When
  \<^verbatim>\<open>start()\<close> spawns another child during the grace period, the timer sends SIGKILL to
  that one. And with no child stored while \<^verbatim>\<open>isRunning\<close> and the port are set,
  \<^verbatim>\<open>stop()\<close> resolves at once, sends no signal and clears nothing.
\<close>

theorem stop_with_second_child_counterexample:
  "map_option signals
     (backend_run [Start (Spawned (Some 4242)), PortTimeout, Start (Spawned (Some 4343)), Stop,
                   Close 0, KillTimer] backend_init) = Some [(1, SIGTERM)]
   \<and> map_option stopPromises
     (backend_run [Start (Spawned (Some 4242)), PortTimeout, Start (Spawned (Some 4343)), Stop,
                   Close 0, KillTimer] backend_init) = Some [StopPending 1]
   \<and> map_option children
     (backend_run [Start (Spawned (Some 4242)), PortTimeout, Start (Spawned (Some 4343)), Stop,
                   Close 0, KillTimer] backend_init) = Some [1]
   \<and> map_option signals
     (backend_run [Start (Spawned (Some 4242)), PortTimeout, Stop, Start (Spawned (Some 4343)),
                   KillTimer] backend_init) = Some [(0, SIGTERM), (1, SIGKILL)]
   \<and> map_option stopPromises
     (backend_run [Start (Spawned (Some 4242)), PortTimeout, Start (Spawned (Some 4343)), Close 0,
                   StdoutData 1 ''PORT:5000'', PortPollTick 100, Stop] backend_init) =
       Some [StopResolved]
   \<and> map_option backend_getStatus
     (backend_run [Start (Spawned (Some 4242)), PortTimeout, Start (Spawned (Some 4343)), Close 0,
                   StdoutData 1 ''PORT:5000'', PortPollTick 100, Stop] backend_init) =
       Some \<lparr>st_isRunning = True, st_port = Some 5000, st_pid = None, st_error = None\<rparr>
   \<and> map_option signals
     (backend_run [Start (Spawned (Some 4242)), PortTimeout, Start (Spawned (Some 4343)), Close 0,
                   StdoutData 1 ''PORT:5000'', PortPollTick 100, Stop] backend_init) = Some []"
  by (simp add: backend_eval)

paragraph \<open>Claim C9\<close>

text \<open>
  Claim C9, as amended. In every state the manager can reach no promise of
  \<^verbatim>\<open>start()\<close> is rejected: each is pending, or fulfilled with a status that has
  either \<open>isRunning = True\<close> and no error or \<open>isRunning = False\<close> and an error. When
  \<^verbatim>\<open>spawn\<close> throws, when the timeout of \<^verbatim>\<open>waitForPort\<close> fires and when the time of
  \<^verbatim>\<open>waitForHealthy\<close> is up, the promise is fulfilled with the status of the \<^verbatim>\<open>catch\<close>
  block: \<open>isRunning = False\<close> and the message as error. The status of
  \<^verbatim>\<open>getStatus()\<close> never carries an error.
\<close>

theorem start_never_rejects:
  assumes "backend_run es backend_init = Some s"
  shows "(\<forall>q \<in> set (promises s). promiseOk q)
     \<and> (\<forall>m. startupPromise s = None \<and> \<not> isRunning s \<longrightarrow>
           promises (snd (backend_start (SpawnThrows m) s)) ! fst (backend_start (SpawnThrows m) s)
             = Fulfilled (failedStatus m))
     \<and> (\<forall>p pd s'. phase s = AwaitPort p pd \<and> backend_step PortTimeout s = Some s' \<longrightarrow>
           promises s' ! p = Fulfilled (failedStatus (Some portTimeoutMessage)))
     \<and> (\<forall>p pd n t0 now s'. phase s = AwaitProbe p pd n t0 \<and> BACKEND_STARTUP_TIMEOUT_MS \<le> now - t0
             \<and> backend_step (ProbeSettled ProbeOther now) s = Some s' \<longrightarrow>
           promises s' ! p = Fulfilled (failedStatus (Some healthTimeoutMessage)))
     \<and> (\<forall>p pd n t0 now s'. phase s = AwaitSleep p pd n t0 \<and> BACKEND_STARTUP_TIMEOUT_MS \<le> now - t0
             \<and> backend_step (SleepDone now) s = Some s' \<longrightarrow>
           promises s' ! p = Fulfilled (failedStatus (Some healthTimeoutMessage)))
     \<and> (\<forall>m. \<not> st_isRunning (failedStatus m)
             \<and> st_error (failedStatus m) = Some (case m of Some msg \<Rightarrow> msg | None \<Rightarrow> ''Unknown error''))
     \<and> st_error (backend_getStatus s) = None"
proof -
  have inv: "backend_inv s" using assms by (rule backend_reachable_inv)
  have a: "\<forall>q \<in> set (promises s). promiseOk q" using inv by (simp add: backend_inv_def)
  have b: "promises (snd (backend_start (SpawnThrows m) s)) ! fst (backend_start (SpawnThrows m) s)
             = Fulfilled (failedStatus m)"
    if "startupPromise s = None \<and> \<not> isRunning s" for m
    using that by (simp add: backend_start_def startInternal_def Let_def)
  have c: "promises s' ! p = Fulfilled (failedStatus (Some portTimeoutMessage))"
    if "phase s = AwaitPort p pd \<and> backend_step PortTimeout s = Some s'" for p pd s'
  proof -
    have "p < length (promises s)" using inv_phase(2) [OF inv, of p] that by (simp add: startupOf_def)
    then show ?thesis using that by (auto simp: backend_step_def portTimeout_def settle_nth)
  qed
  have d: "promises s' ! p = Fulfilled (failedStatus (Some healthTimeoutMessage))"
    if "phase s = AwaitProbe p pd n t0 \<and> BACKEND_STARTUP_TIMEOUT_MS \<le> now - t0
        \<and> backend_step (ProbeSettled ProbeOther now) s = Some s'" for p pd n t0 now s'
  proof -
    have "p < length (promises s)" using inv_phase(2) [OF inv, of p] that by (simp add: startupOf_def)
    then show ?thesis using that
      by (auto simp: backend_step_def probeSettled_def waitForHealthy_loop_def settle_nth)
  qed
  have e: "promises s' ! p = Fulfilled (failedStatus (Some healthTimeoutMessage))"
    if "phase s = AwaitSleep p pd n t0 \<and> BACKEND_STARTUP_TIMEOUT_MS \<le> now - t0
        \<and> backend_step (SleepDone now) s = Some s'" for p pd n t0 now s'
  proof -
    have "p < length (promises s)" using inv_phase(2) [OF inv, of p] that by (simp add: startupOf_def)
    then show ?thesis using that
      by (auto simp: backend_step_def sleepDone_def waitForHealthy_loop_def settle_nth)
  qed
  have f: "\<not> st_isRunning (failedStatus m)
             \<and> st_error (failedStatus m) = Some (case m of Some msg \<Rightarrow> msg | None \<Rightarrow> ''Unknown error'')" for m
    by (simp add: failedStatus_def)
  have g: "st_error (backend_getStatus s) = None" by (simp add: backend_getStatus_def)
  show ?thesis using a b c d e f g by blast
qed

text \<open>
  The theorem of claim C9 at a startup timeout after a start from the initial state.
\<close>

theorem start_never_rejects_witness:
  "backend_run [Start (Spawned (Some 4242))] backend_init =
     Some \<lparr>process = Some \<lparr>child = 0, pid = Some 4242\<rparr>, port = None, isRunning = False,
          startupPromise = Some 0, phase = AwaitPort 0 (Some 4242), promises = [Pending],
          children = [0], spawned = 1, probes = 0, signals = [], stopPromises = [],
          killTimers = 0\<rparr>
   \<and> map_option promises
       (backend_step PortTimeout
         \<lparr>process = Some \<lparr>child = 0, pid = Some 4242\<rparr>, port = None, isRunning = False,
          startupPromise = Some 0, phase = AwaitPort 0 (Some 4242), promises = [Pending],
          children = [0], spawned = 1, probes = 0, signals = [], stopPromises = [],
          killTimers = 0\<rparr>) =
     Some [Fulfilled \<lparr>st_isRunning = False, st_port = None, st_pid = None,
                      st_error = Some ''Backend did not announce port within timeout''\<rparr>]"
proof -
  let ?s = "\<lparr>process = Some \<lparr>child = 0, pid = Some 4242\<rparr>, port = None, isRunning = False,
          startupPromise = Some 0, phase = AwaitPort 0 (Some 4242), promises = [Pending],
          children = [0], spawned = 1, probes = 0, signals = [], stopPromises = [],
          killTimers = 0\<rparr>"
  have r: "backend_run [Start (Spawned (Some 4242))] backend_init = Some ?s"
    by (simp add: backend_eval)
  obtain s' where s': "backend_step PortTimeout ?s = Some s'" "promises s' = [promises s' ! 0]"
    by (simp add: backend_eval)
  from start_never_rejects [OF r] s'(1)
  have "promises s' ! 0 = Fulfilled (failedStatus (Some portTimeoutMessage))"
    by simp
  with s' r show ?thesis by (simp add: failedStatus_def portTimeoutMessage_def)
qed

text \<open>
  Claim C9 as stated places the failure, with \<open>isRunning = False\<close>, in the status
  available from \<^verbatim>\<open>getStatus()\<close>. After a startup timeout the promise of \<^verbatim>\<open>start()\<close>
  holds the error and \<^verbatim>\<open>getStatus()\<close> reports \<open>error = None\<close>; after a health-check
  timeout \<^verbatim>\<open>getStatus()\<close> reports \<open>isRunning = True\<close> as well.
\<close>

theorem status_query_without_error_counterexample:
  "map_option promises (backend_run [Start (Spawned (Some 4242)), PortTimeout] backend_init) =
     Some [Fulfilled \<lparr>st_isRunning = False, st_port = None, st_pid = None,
                      st_error = Some ''Backend did not announce port within timeout''\<rparr>]
   \<and> map_option backend_getStatus
       (backend_run [Start (Spawned (Some 4242)), PortTimeout] backend_init) =
     Some \<lparr>st_isRunning = False, st_port = None, st_pid = Some 4242, st_error = None\<rparr>
   \<and> map_option promises
       (backend_run [Start (Spawned (Some 4242)), StdoutData 0 ''PORT:54321'', PortPollTick 200,
                     ProbeSettled ProbeFailed 300, SleepDone 30200] backend_init) =
     Some [Fulfilled \<lparr>st_isRunning = False, st_port = None, st_pid = None,
                      st_error = Some ''Backend did not become healthy within timeout''\<rparr>]
   \<and> map_option backend_getStatus
       (backend_run [Start (Spawned (Some 4242)), StdoutData 0 ''PORT:54321'', PortPollTick 200,
                     ProbeSettled ProbeFailed 300, SleepDone 30200] backend_init) =
     Some \<lparr>st_isRunning = True, st_port = Some 54321, st_pid = Some 4242, st_error = None\<rparr>"
  by (simp add: backend_eval)

paragraph \<open>Claim C10\<close>



end
